theory Spec2Isabelle
  imports Main "HOL-Library.Word"
begin

unbundle bit_operations_syntax

section \<open>The redo log of storage/innobase/log/log0log.cc\<close>

text \<open>
  The development follows \<^verbatim>\<open>log0log.cc\<close> and \<^verbatim>\<open>log0log.h\<close>. One thread's run of each
  function is embedded: the global objects the function mutates are passed in and
  returned, a process abort (\<^verbatim>\<open>ut_a\<close>, \<^verbatim>\<open>ib::fatal\<close>) and an I/O error code are values,
  and the operating system's answers to I/O requests are part of the file's state.
  Debug-only assertions (\<^verbatim>\<open>ut_ad\<close>) do not execute in a production build and are not
  branches of the model; they are recorded in the text where they matter.

  Unsigned 64-bit quantities (\<^verbatim>\<open>lsn_t\<close>, \<^verbatim>\<open>ulint\<close>, \<^verbatim>\<open>os_offset_t\<close>, \<^verbatim>\<open>size_t\<close>) are natural
  numbers; an addition or subtraction of the source that can leave the 64-bit range is
  written with its wrap-around (\<open>add64\<close>, \<open>sub64\<close>). Addresses are offsets into the log
  buffer's allocation and are not wrapped.
\<close>

type_synonym byte = "8 word"
type_synonym lsn_t = nat
type_synonym os_offset_t = nat

definition add64 :: "nat \<Rightarrow> nat \<Rightarrow> nat" where
  "add64 a b = (a + b) mod 2 ^ 64"

definition sub64 :: "nat \<Rightarrow> nat \<Rightarrow> nat" where
  "sub64 a b = (2 ^ 64 + a - b mod 2 ^ 64) mod 2 ^ 64"

lemma add64_small: "a + b < 2 ^ 64 \<Longrightarrow> add64 a b = a + b"
  by (simp add: add64_def)

lemma sub64_small: "b \<le> a \<Longrightarrow> a < 2 ^ 64 \<Longrightarrow> sub64 a b = a - b"
proof -
  assume le: "b \<le> a" and lt: "a < 2 ^ 64"
  have b: "b mod 2 ^ 64 = b" using le lt by (intro mod_less) (rule le_less_trans)
  have "(2::nat) ^ 64 + a - b = (a - b) + 2 ^ 64" using le by (simp only: add.commute [of "2 ^ 64"] diff_add_assoc2)
  then have "sub64 a b = ((a - b) + 2 ^ 64) mod 2 ^ 64"
    by (simp only: sub64_def b)
  also have "\<dots> = (a - b) mod 2 ^ 64" by (simp only: mod_add_self2)
  also have "\<dots> = a - b" using lt by (intro mod_less) (rule le_less_trans [OF diff_le_self])
  finally show ?thesis .
qed

lemma add64_mod_512: "add64 a b mod 512 = (a + b) mod 512"
proof -
  have "(512::nat) dvd 2 ^ 64" by simp
  then show ?thesis unfolding add64_def by (rule mod_mod_cancel)
qed

lemma sub64_eq_0: "a < 2 ^ 64 \<Longrightarrow> b < 2 ^ 64 \<Longrightarrow> sub64 a b = 0 \<Longrightarrow> a = b"
proof (rule ccontr)
  assume a: "a < 2 ^ 64" and b: "b < 2 ^ 64" and z: "sub64 a b = 0" and ne: "a \<noteq> b"
  have bm: "b mod 2 ^ 64 = b" using b by simp
  show False
  proof (cases "b \<le> a")
    case True
    then have "sub64 a b = a - b" using a by (rule sub64_small)
    with z ne True show False by simp
  next
    case False
    then have lt: "2 ^ 64 + a - b < 2 ^ 64" and pos: "0 < 2 ^ 64 + a - b" using b by simp_all
    have "sub64 a b = 2 ^ 64 + a - b"
      unfolding sub64_def bm using lt by (rule mod_less)
    with z pos show False by simp
  qed
qed

subsection \<open>File I/O\<close>

datatype dberr_t = DB_SUCCESS | DB_ERROR

datatype io_request = IO_write os_offset_t "byte list" | IO_flush

text \<open>
  A \<^verbatim>\<open>log_file_t\<close> over an operating-system file. \<open>file_bytes\<close> is what the file holds,
  \<open>io_answers\<close> the error codes the operating system will give to the coming requests
  (every request succeeds once the list is used up), \<open>io_done\<close> the requests that
  succeeded, in order.
\<close>

record log_file_t =
  file_bytes :: "byte list"
  m_durable_writes :: bool
  io_answers :: "dberr_t list"
  io_done :: "io_request list"

definition next_answer :: "log_file_t \<Rightarrow> dberr_t" where
  "next_answer f = (case io_answers f of [] \<Rightarrow> DB_SUCCESS | e # _ \<Rightarrow> e)"

text \<open>\<^verbatim>\<open>pwrite\<close>: bytes written past the end of the file leave a gap of zeros.\<close>

definition pwrite :: "byte list \<Rightarrow> os_offset_t \<Rightarrow> byte list \<Rightarrow> byte list" where
  "pwrite old offset buf =
     take offset old @ replicate (offset - length old) 0 @ buf @ drop (offset + length buf) old"

definition file_write :: "os_offset_t \<Rightarrow> byte list \<Rightarrow> log_file_t \<Rightarrow> dberr_t \<times> log_file_t" where
  "file_write offset buf f =
     (if next_answer f = DB_SUCCESS
      then (DB_SUCCESS, f\<lparr>file_bytes := pwrite (file_bytes f) offset buf,
                           io_answers := tl (io_answers f),
                           io_done := io_done f @ [IO_write offset buf]\<rparr>)
      else (next_answer f, f\<lparr>io_answers := tl (io_answers f)\<rparr>))"

definition file_flush_data_only :: "log_file_t \<Rightarrow> dberr_t \<times> log_file_t" where
  "file_flush_data_only f =
     (if next_answer f = DB_SUCCESS
      then (DB_SUCCESS, f\<lparr>io_answers := tl (io_answers f), io_done := io_done f @ [IO_flush]\<rparr>)
      else (next_answer f, f\<lparr>io_answers := tl (io_answers f)\<rparr>))"

definition writes_are_durable :: "log_file_t \<Rightarrow> bool" where
  "writes_are_durable f = m_durable_writes f"

subsection \<open>The circular data file: \<^verbatim>\<open>redo_t\<close>\<close>

record redo_t =
  m_main_file :: log_file_t
  m_main_file_size :: os_offset_t
  m_data_file :: log_file_t
  m_data_file_position :: os_offset_t
  m_data_file_size :: os_offset_t
  m_sequence_bit :: "1 word"

definition flip_sequence_bit :: "redo_t \<Rightarrow> redo_t" where
  "flip_sequence_bit r = r\<lparr>m_sequence_bit := NOT (m_sequence_bit r)\<rparr>"

text \<open>
  \<^verbatim>\<open>redo_t::append_wrapped\<close>. The two debug assertions
  \<^verbatim>\<open>m_data_file_position != m_data_file_size\<close> and \<^verbatim>\<open>buf.size() < m_data_file_size\<close> are the
  caller's obligations. An error code of a write is returned at once, with the object as
  it is at that point.
\<close>

definition append_wrapped :: "byte list \<Rightarrow> redo_t \<Rightarrow> dberr_t \<times> redo_t" where
  "append_wrapped buf r =
     (if add64 (m_data_file_position r) (length buf) > m_data_file_size r
      then
        (let tail_length = sub64 (m_data_file_size r) (m_data_file_position r);
             (err, f) = file_write (m_data_file_position r) (take tail_length buf) (m_data_file r)
         in if err \<noteq> DB_SUCCESS then (err, r\<lparr>m_data_file := f\<rparr>)
            else
              let buf' = drop tail_length buf;
                  r1 = flip_sequence_bit (r\<lparr>m_data_file := f, m_data_file_position := 0\<rparr>);
                  (err', f') = file_write (m_data_file_position r1) buf' (m_data_file r1)
              in if err' \<noteq> DB_SUCCESS then (err', r1\<lparr>m_data_file := f'\<rparr>)
                 else
                   let r2 = r1\<lparr>m_data_file := f',
                               m_data_file_position := add64 (m_data_file_position r1) (length buf')\<rparr>
                   in (DB_SUCCESS,
                       if m_data_file_position r2 = m_data_file_size r2
                       then r2\<lparr>m_data_file_position := 0\<rparr> else r2))
      else
        (let (err, f) = file_write (m_data_file_position r) buf (m_data_file r)
         in if err \<noteq> DB_SUCCESS then (err, r\<lparr>m_data_file := f\<rparr>)
            else
              let r2 = r\<lparr>m_data_file := f,
                         m_data_file_position := add64 (m_data_file_position r) (length buf)\<rparr>
              in (DB_SUCCESS,
                  if m_data_file_position r2 = m_data_file_size r2
                  then r2\<lparr>m_data_file_position := 0\<rparr> else r2)))"

subsection \<open>Helpers of other modules\<close>

text \<open>
  Modelled from the spec: \<^verbatim>\<open>ut_crc32\<close> (ut0crc32.h) is not under \<^verbatim>\<open>src/\<close>. The spec names
  the checksum CRC-32C: the reflected polynomial \<open>0x82F63B78\<close>, initial value and final
  complement \<open>0xFFFFFFFF\<close>.
\<close>

definition crc32c_shift :: "32 word \<Rightarrow> 32 word" where
  "crc32c_shift c = (if bit c 0 then drop_bit 1 c XOR 0x82F63B78 else drop_bit 1 c)"

definition crc32c_byte :: "32 word \<Rightarrow> byte \<Rightarrow> 32 word" where
  "crc32c_byte c b = (crc32c_shift ^^ 8) (c XOR ucast b)"

definition ut_crc32 :: "byte list \<Rightarrow> 32 word" where
  "ut_crc32 bs = NOT (foldl crc32c_byte (NOT 0) bs)"

text \<open>
  Modelled from the spec: the \<^verbatim>\<open>mach_write_to_N\<close> and \<^verbatim>\<open>mach_read_from_N\<close> functions
  (mach0data.h) are not under \<^verbatim>\<open>src/\<close>. The spec stores integers big-endian; a value
  wider than the field loses its high bytes.
\<close>

fun mach_write_to :: "nat \<Rightarrow> nat \<Rightarrow> byte list" where
  "mach_write_to 0 n = []"
| "mach_write_to (Suc k) n = of_nat (n div 256 ^ k) # mach_write_to k n"

definition mach_read_from :: "byte list \<Rightarrow> nat" where
  "mach_read_from bs = foldl (\<lambda>acc b. acc * 256 + unat b) 0 bs"

text \<open>
  Memory is a function from addresses to bytes; an address is an offset into the
  allocation that \<^verbatim>\<open>log_sys.buf\<close> points into.
\<close>

type_synonym memory = "nat \<Rightarrow> byte"

definition memcpy :: "memory \<Rightarrow> nat \<Rightarrow> byte list \<Rightarrow> memory" where
  "memcpy mem dst bs = (\<lambda>a. if dst \<le> a \<and> a < dst + length bs then bs ! (a - dst) else mem a)"

definition memset :: "memory \<Rightarrow> nat \<Rightarrow> byte \<Rightarrow> nat \<Rightarrow> memory" where
  "memset mem dst c n = memcpy mem dst (replicate n c)"

definition mem_read :: "memory \<Rightarrow> nat \<Rightarrow> nat \<Rightarrow> byte list" where
  "mem_read mem a n = map mem [a ..< a + n]"

text \<open>
  Modelled from the spec: the alignment helpers \<^verbatim>\<open>ut_calc_align\<close>, \<^verbatim>\<open>ut_2pow_round\<close>,
  \<^verbatim>\<open>ut_align_down\<close>, \<^verbatim>\<open>ut_uint64_align_down\<close> and \<^verbatim>\<open>ut_uint64_align_up\<close> (ut0ut.h,
  ut0byte.h) are not under \<^verbatim>\<open>src/\<close>; they round to a multiple of a power of two.
\<close>

definition ut_2pow_round :: "nat \<Rightarrow> nat \<Rightarrow> nat" where
  "ut_2pow_round n m = n - n mod m"

definition ut_calc_align :: "nat \<Rightarrow> nat \<Rightarrow> nat" where
  "ut_calc_align n m = ut_2pow_round (add64 n (m - 1)) m"

subsection \<open>Block codec\<close>

definition OS_FILE_LOG_BLOCK_SIZE :: nat where "OS_FILE_LOG_BLOCK_SIZE = 512"
definition LOG_BLOCK_HDR_NO :: nat where "LOG_BLOCK_HDR_NO = 0"
definition LOG_BLOCK_FLUSH_BIT_MASK :: nat where "LOG_BLOCK_FLUSH_BIT_MASK = 0x80000000"
definition LOG_BLOCK_HDR_DATA_LEN :: nat where "LOG_BLOCK_HDR_DATA_LEN = 4"
definition LOG_BLOCK_FIRST_REC_GROUP :: nat where "LOG_BLOCK_FIRST_REC_GROUP = 6"
definition LOG_BLOCK_CHECKPOINT_NO :: nat where "LOG_BLOCK_CHECKPOINT_NO = 8"
definition LOG_BLOCK_HDR_SIZE :: nat where "LOG_BLOCK_HDR_SIZE = 12"
definition LOG_BLOCK_KEY :: nat where "LOG_BLOCK_KEY = 4"
definition LOG_BLOCK_CHECKSUM :: nat where "LOG_BLOCK_CHECKSUM = 4"

text \<open>
  Modelled from the spec: the inline functions of \<^verbatim>\<open>log0log.ic\<close>, which \<^verbatim>\<open>log0log.h\<close>
  declares, are not under \<^verbatim>\<open>src/\<close>. Each reads or writes the big-endian header field at
  the offset that \<^verbatim>\<open>log0log.h\<close> defines; the flush bit is the top bit of the block number;
  the checkpoint number field holds the four low bytes; the block number of an LSN is
  \<open>1 + (lsn / 512) mod 2^31\<close>; \<open>init_block\<close> sets the block number of the LSN, the data
  length of an empty block (the header size) and no first record group; the checksum is
  the CRC-32C of the block up to its trailer.
\<close>

definition log_block_get_hdr_no :: "memory \<Rightarrow> nat \<Rightarrow> nat" where
  "log_block_get_hdr_no mem log_block =
     mach_read_from (mem_read mem (log_block + LOG_BLOCK_HDR_NO) 4) mod LOG_BLOCK_FLUSH_BIT_MASK"

definition log_block_get_flush_bit :: "memory \<Rightarrow> nat \<Rightarrow> bool" where
  "log_block_get_flush_bit mem log_block =
     (LOG_BLOCK_FLUSH_BIT_MASK \<le> mach_read_from (mem_read mem (log_block + LOG_BLOCK_HDR_NO) 4))"

definition log_block_set_flush_bit :: "memory \<Rightarrow> nat \<Rightarrow> bool \<Rightarrow> memory" where
  "log_block_set_flush_bit mem log_block val =
     memcpy mem (log_block + LOG_BLOCK_HDR_NO)
       (mach_write_to 4 (log_block_get_hdr_no mem log_block +
                         (if val then LOG_BLOCK_FLUSH_BIT_MASK else 0)))"

definition log_block_set_hdr_no :: "memory \<Rightarrow> nat \<Rightarrow> nat \<Rightarrow> memory" where
  "log_block_set_hdr_no mem log_block n =
     memcpy mem (log_block + LOG_BLOCK_HDR_NO) (mach_write_to 4 n)"

definition log_block_get_data_len :: "memory \<Rightarrow> nat \<Rightarrow> nat" where
  "log_block_get_data_len mem log_block =
     mach_read_from (mem_read mem (log_block + LOG_BLOCK_HDR_DATA_LEN) 2)"

definition log_block_set_data_len :: "memory \<Rightarrow> nat \<Rightarrow> nat \<Rightarrow> memory" where
  "log_block_set_data_len mem log_block len =
     memcpy mem (log_block + LOG_BLOCK_HDR_DATA_LEN) (mach_write_to 2 len)"

definition log_block_get_first_rec_group :: "memory \<Rightarrow> nat \<Rightarrow> nat" where
  "log_block_get_first_rec_group mem log_block =
     mach_read_from (mem_read mem (log_block + LOG_BLOCK_FIRST_REC_GROUP) 2)"

definition log_block_set_first_rec_group :: "memory \<Rightarrow> nat \<Rightarrow> nat \<Rightarrow> memory" where
  "log_block_set_first_rec_group mem log_block offset =
     memcpy mem (log_block + LOG_BLOCK_FIRST_REC_GROUP) (mach_write_to 2 offset)"

definition log_block_get_checkpoint_no :: "memory \<Rightarrow> nat \<Rightarrow> nat" where
  "log_block_get_checkpoint_no mem log_block =
     mach_read_from (mem_read mem (log_block + LOG_BLOCK_CHECKPOINT_NO) 4)"

definition log_block_set_checkpoint_no :: "memory \<Rightarrow> nat \<Rightarrow> nat \<Rightarrow> memory" where
  "log_block_set_checkpoint_no mem log_block no =
     memcpy mem (log_block + LOG_BLOCK_CHECKPOINT_NO) (mach_write_to 4 (no mod 2 ^ 32))"

definition log_block_convert_lsn_to_no :: "lsn_t \<Rightarrow> nat" where
  "log_block_convert_lsn_to_no l = 1 + (l div OS_FILE_LOG_BLOCK_SIZE) mod 2 ^ 31"

definition log_block_init :: "memory \<Rightarrow> nat \<Rightarrow> lsn_t \<Rightarrow> memory" where
  "log_block_init mem log_block l =
     (let mem1 = log_block_set_hdr_no mem log_block (log_block_convert_lsn_to_no l);
          mem2 = log_block_set_data_len mem1 log_block LOG_BLOCK_HDR_SIZE
      in log_block_set_first_rec_group mem2 log_block 0)"

definition log_block_calc_checksum_crc32 :: "memory \<Rightarrow> nat \<Rightarrow> nat" where
  "log_block_calc_checksum_crc32 mem block =
     unat (ut_crc32 (mem_read mem block (OS_FILE_LOG_BLOCK_SIZE - LOG_BLOCK_CHECKSUM)))"

definition log_block_set_checksum :: "memory \<Rightarrow> nat \<Rightarrow> nat \<Rightarrow> memory" where
  "log_block_set_checksum mem log_block checksum =
     memcpy mem (log_block + OS_FILE_LOG_BLOCK_SIZE - LOG_BLOCK_CHECKSUM)
       (mach_write_to 4 checksum)"

definition log_block_store_checksum :: "memory \<Rightarrow> nat \<Rightarrow> memory" where
  "log_block_store_checksum mem block =
     log_block_set_checksum mem block (log_block_calc_checksum_crc32 mem block)"

subsection \<open>The log system: \<^verbatim>\<open>log_t\<close>\<close>

definition FORMAT_10_4 :: nat where "FORMAT_10_4 = 104"
definition FORMAT_ENCRYPTED :: nat where "FORMAT_ENCRYPTED = 2 ^ 31"
definition FORMAT_ENC_10_4 :: nat where "FORMAT_ENC_10_4 = FORMAT_10_4 + FORMAT_ENCRYPTED"
definition FORMAT_10_5 :: nat where "FORMAT_10_5 = 0x50485953"

text \<open>\<^verbatim>\<open>log_t::file\<close>; its private \<^verbatim>\<open>lsn\<close> is \<open>file_lsn\<close> here.\<close>

record log_t_file =
  format :: nat
  key_version :: nat
  file_size :: lsn_t
  file_lsn :: lsn_t
  lsn_offset :: lsn_t
  fd :: log_file_t
  data_fd :: log_file_t

text \<open>
  \<^verbatim>\<open>log_t\<close>. \<open>buf_mem\<close> is the allocation of twice \<^verbatim>\<open>srv_log_buffer_size\<close> bytes and \<open>buf\<close>
  the offset in it of the half in use.
\<close>

record log_t =
  lsn :: lsn_t
  buf_free :: nat
  buf_mem :: memory
  buf :: nat
  first_in_use :: bool
  max_buf_free :: nat
  check_flush_or_checkpoint :: bool
  log :: log_t_file
  buf_next_to_write :: nat
  write_lsn :: lsn_t
  flushed_to_disk_lsn :: lsn_t
  pending_flushes :: nat
  flushes :: nat
  n_log_ios :: nat
  log_capacity :: lsn_t
  max_modified_age_async :: lsn_t
  max_modified_age_sync :: lsn_t
  max_checkpoint_age_async :: lsn_t
  max_checkpoint_age :: lsn_t
  next_checkpoint_no :: nat
  last_checkpoint_lsn :: lsn_t
  next_checkpoint_lsn :: lsn_t
  n_pending_checkpoint_writes :: nat

definition framing_size :: "log_t \<Rightarrow> nat" where
  "framing_size ls =
     (if format (log ls) = FORMAT_ENC_10_4
      then LOG_BLOCK_HDR_SIZE + LOG_BLOCK_KEY + LOG_BLOCK_CHECKSUM
      else LOG_BLOCK_HDR_SIZE + LOG_BLOCK_CHECKSUM)"

definition trailer_offset :: "log_t \<Rightarrow> nat" where
  "trailer_offset ls =
     (if format (log ls) = FORMAT_ENC_10_4
      then OS_FILE_LOG_BLOCK_SIZE - LOG_BLOCK_CHECKSUM - LOG_BLOCK_KEY
      else OS_FILE_LOG_BLOCK_SIZE - LOG_BLOCK_CHECKSUM)"

definition is_physical :: "log_t_file \<Rightarrow> bool" where
  "is_physical f = (format f = FORMAT_10_5)"

definition is_encrypted_physical :: "log_t_file \<Rightarrow> bool" where
  "is_encrypted_physical f = (key_version f \<noteq> 0)"

definition is_encrypted_old :: "log_t_file \<Rightarrow> bool" where
  "is_encrypted_old f = (FORMAT_ENCRYPTED \<le> format f mod 2 ^ 32)"

subsection \<open>The process state\<close>

text \<open>
  What a call leaves behind outside the files: messages of \<^verbatim>\<open>ib::error\<close>, sleeps, and calls
  into the recovery, tablespace and server layers.
\<close>

datatype event =
    Error_log_too_small nat lsn_t
  | Error_cannot_continue nat
  | Thread_sleep nat
  | Recv_apply_hashed_log_recs
  | Fil_flush_file_spaces
  | Innobase_mysql_log_notify lsn_t

datatype srv_flush_t = SRV_FSYNC | SRV_O_DSYNC | SRV_NOSYNC

text \<open>
  Modelled from the spec: \<^verbatim>\<open>group_commit_lock\<close> (log0sync.h) is not under \<^verbatim>\<open>src/\<close>. The
  lock has a committed LSN (\<^verbatim>\<open>value()\<close>) and a pending LSN; \<^verbatim>\<open>acquire(lsn)\<close> returns as
  covered when the committed LSN is already at least \<open>lsn\<close> and otherwise makes the caller
  the writer; \<^verbatim>\<open>release(lsn)\<close> publishes \<open>lsn\<close> as the committed LSN. In one thread's run
  no other thread is the writer, so \<^verbatim>\<open>acquire\<close> never waits: a caller that waited for
  another writer returns as covered with the committed LSN that writer published, which
  is the state in which the model's \<^verbatim>\<open>acquire\<close> is evaluated.
\<close>

record group_commit_lock =
  m_value :: lsn_t
  m_pending :: lsn_t

datatype lock_return_code = ACQUIRED | WAITING_COVERED

definition acquire :: "lsn_t \<Rightarrow> group_commit_lock \<Rightarrow> lock_return_code" where
  "acquire l lk = (if l \<le> m_value lk then WAITING_COVERED else ACQUIRED)"

definition set_pending :: "lsn_t \<Rightarrow> group_commit_lock \<Rightarrow> group_commit_lock" where
  "set_pending l lk = lk\<lparr>m_pending := l\<rparr>"

definition release :: "lsn_t \<Rightarrow> group_commit_lock \<Rightarrow> group_commit_lock" where
  "release l lk = lk\<lparr>m_value := l\<rparr>"

text \<open>
  The globals of \<^verbatim>\<open>log0log.cc\<close> and the globals of other modules that its functions
  read. \<open>clock n\<close> is the \<open>n\<close>-th answer of \<^verbatim>\<open>time(NULL)\<close> and \<open>clock_reads\<close> counts the
  answers given; \<open>buf_pool_oldest_modification\<close> is the answer of
  \<^verbatim>\<open>buf_pool_get_oldest_modification()\<close>, 0 when no page is dirty; \<open>log_crypt\<close> is the
  encryption of a span of the log buffer (log0crypt.h), taking the memory, the start
  address, the LSN and the size.
\<close>

record world =
  log_sys :: log_t
  new_redo :: redo_t
  write_lock :: group_commit_lock
  flush_lock :: group_commit_lock
  log_has_printed_chkp_margine_warning :: bool
  log_last_margine_warning_time :: int
  clock :: "nat \<Rightarrow> int"
  clock_reads :: nat
  events :: "event list"
  srv_page_size_shift :: nat
  srv_thread_concurrency :: nat
  srv_log_buffer_size :: nat
  srv_log_write_ahead_size :: nat
  srv_file_flush_method :: srv_flush_t
  recv_no_ibuf_operations :: bool
  recv_recovery_on :: bool
  buf_pool_oldest_modification :: lsn_t
  log_crypt :: "memory \<Rightarrow> nat \<Rightarrow> lsn_t \<Rightarrow> nat \<Rightarrow> memory"

datatype abort = Fatal_error | Assertion_failure | Division_by_zero

definition time_now :: "world \<Rightarrow> int \<times> world" where
  "time_now w = (clock w (clock_reads w), w\<lparr>clock_reads := Suc (clock_reads w)\<rparr>)"

definition emit :: "event \<Rightarrow> world \<Rightarrow> world" where
  "emit e w = w\<lparr>events := events w @ [e]\<rparr>"

subsection \<open>Capacity thresholds: \<^verbatim>\<open>log_set_capacity\<close>\<close>

definition LOG_POOL_CHECKPOINT_RATIO_ASYNC :: nat where "LOG_POOL_CHECKPOINT_RATIO_ASYNC = 32"
definition LOG_POOL_PREFLUSH_RATIO_SYNC :: nat where "LOG_POOL_PREFLUSH_RATIO_SYNC = 16"
definition LOG_POOL_PREFLUSH_RATIO_ASYNC :: nat where "LOG_POOL_PREFLUSH_RATIO_ASYNC = 8"

text \<open>The two macros shift an \<^verbatim>\<open>unsigned int\<close>, so their values are 32-bit.\<close>

definition LOG_CHECKPOINT_FREE_PER_THREAD :: "world \<Rightarrow> nat" where
  "LOG_CHECKPOINT_FREE_PER_THREAD w = push_bit (srv_page_size_shift w) 4 mod 2 ^ 32"

definition LOG_CHECKPOINT_EXTRA_FREE :: "world \<Rightarrow> nat" where
  "LOG_CHECKPOINT_EXTRA_FREE w = push_bit (srv_page_size_shift w) 8 mod 2 ^ 32"

definition log_set_capacity :: "nat \<Rightarrow> world \<Rightarrow> bool \<times> world" where
  "log_set_capacity file_size' w =
     (let smallest_capacity = file_size';
          smallest_capacity = smallest_capacity - smallest_capacity div 10;
          free = add64 ((LOG_CHECKPOINT_FREE_PER_THREAD w * add64 10 (srv_thread_concurrency w))
                          mod 2 ^ 64)
                       (LOG_CHECKPOINT_EXTRA_FREE w)
      in if free \<ge> smallest_capacity div 2
         then (False, emit (Error_cannot_continue (srv_thread_concurrency w)) w)
         else
           let margin = smallest_capacity - free;
               margin = margin - margin div 10
           in (True,
               w\<lparr>log_sys := (log_sys w)
                 \<lparr>log_capacity := smallest_capacity,
                  max_modified_age_async := margin - margin div LOG_POOL_PREFLUSH_RATIO_ASYNC,
                  max_modified_age_sync := margin - margin div LOG_POOL_PREFLUSH_RATIO_SYNC,
                  max_checkpoint_age_async := margin - margin div LOG_POOL_CHECKPOINT_RATIO_ASYNC,
                  max_checkpoint_age := margin\<rparr>\<rparr>))"

text \<open>
  The thresholds in the spec's words, to compare with: the capacity less a tenth,
  reduced by an eighth, a sixteenth, a thirty-second, and not at all.
\<close>

definition spec_thresholds :: "lsn_t \<Rightarrow> lsn_t \<times> lsn_t \<times> lsn_t \<times> lsn_t" where
  "spec_thresholds capacity =
     (let c = capacity - capacity div 10
      in (c - c div 8, c - c div 16, c - c div 32, c))"

subsection \<open>Appending to the log buffer: \<^verbatim>\<open>log_write_low\<close>\<close>

text \<open>
  One pass through the body of \<^verbatim>\<open>part_loop\<close>: the rest of the string and the log system
  after the pass. The source copies \<open>len\<close> bytes of the string; \<open>len\<close> is at most the
  string's length as long as \<open>buf_free mod 512\<close> is not beyond the trailer offset, which
  every pass re-establishes.
\<close>

definition log_write_low_part :: "byte list \<Rightarrow> log_t \<Rightarrow> byte list \<times> log_t" where
  "log_write_low_part str ls =
     (let data_len = add64 (buf_free ls mod OS_FILE_LOG_BLOCK_SIZE) (length str);
          (data_len, len) =
            (if data_len \<le> trailer_offset ls then (data_len, length str)
             else (trailer_offset ls,
                   sub64 (trailer_offset ls) (buf_free ls mod OS_FILE_LOG_BLOCK_SIZE)));
          mem1 = memcpy (buf_mem ls) (buf ls + buf_free ls) (take len str);
          str' = drop len str;
          log_block = ut_2pow_round (buf ls + buf_free ls) OS_FILE_LOG_BLOCK_SIZE;
          mem2 = log_block_set_data_len mem1 log_block data_len
      in if data_len = trailer_offset ls
         then
           let mem3 = log_block_set_data_len mem2 log_block OS_FILE_LOG_BLOCK_SIZE;
               mem4 = log_block_set_checkpoint_no mem3 log_block (next_checkpoint_no ls);
               len = add64 len (framing_size ls);
               lsn' = add64 (lsn ls) len;
               mem5 = log_block_init mem4 (log_block + OS_FILE_LOG_BLOCK_SIZE) lsn'
           in (str', ls\<lparr>buf_mem := mem5, lsn := lsn', buf_free := add64 (buf_free ls) len\<rparr>)
         else
           (str', ls\<lparr>buf_mem := mem2, lsn := add64 (lsn ls) len,
                      buf_free := add64 (buf_free ls) len\<rparr>))"

text \<open>Whether the string fits within the current log block.\<close>

definition fits :: "byte list \<Rightarrow> log_t \<Rightarrow> bool" where
  "fits str ls \<longleftrightarrow> add64 (buf_free ls mod OS_FILE_LOG_BLOCK_SIZE) (length str) \<le> trailer_offset ls"

text \<open>
  \<^verbatim>\<open>log_write_low\<close>: the passes are repeated while bytes of the string remain. A pass that
  copies no byte (the block is exactly full) moves \<open>buf_free\<close> into the next block, where
  the following pass copies at least one; this is the termination argument. The
  monitoring counters (\<^verbatim>\<open>srv_stats\<close>, \<^verbatim>\<open>MONITOR_INC\<close>) are not part of the model.
\<close>

lemma trailer_offset_bounds: "trailer_offset ls < 512 \<and> trailer_offset ls < 2 ^ 64"
  by (simp add: trailer_offset_def OS_FILE_LOG_BLOCK_SIZE_def LOG_BLOCK_CHECKSUM_def LOG_BLOCK_KEY_def)

lemma trailer_plus_framing: "(trailer_offset ls + framing_size ls) mod 512 = 12"
  by (simp add: trailer_offset_def framing_size_def OS_FILE_LOG_BLOCK_SIZE_def
                LOG_BLOCK_CHECKSUM_def LOG_BLOCK_KEY_def LOG_BLOCK_HDR_SIZE_def)

lemma trailer_offset_neq_12: "trailer_offset ls \<noteq> 12"
  by (simp add: trailer_offset_def OS_FILE_LOG_BLOCK_SIZE_def LOG_BLOCK_CHECKSUM_def LOG_BLOCK_KEY_def)

lemma part_fits_rest: "fits str ls \<Longrightarrow> fst (log_write_low_part str ls) = []"
  by (simp add: log_write_low_part_def fits_def Let_def)

lemma part_format: "format (log (snd (log_write_low_part str ls))) = format (log ls)"
  by (simp add: log_write_low_part_def Let_def case_prod_beta)

lemma part_trailer_offset: "trailer_offset (snd (log_write_low_part str ls)) = trailer_offset ls"
  by (simp add: trailer_offset_def part_format)

lemma part_nofit_rest:
  "\<not> fits str ls \<Longrightarrow>
   fst (log_write_low_part str ls) =
     drop (sub64 (trailer_offset ls) (buf_free ls mod OS_FILE_LOG_BLOCK_SIZE)) str"
  by (simp add: log_write_low_part_def fits_def Let_def)

lemma part_nofit_buf_free:
  "\<not> fits str ls \<Longrightarrow>
   buf_free (snd (log_write_low_part str ls)) =
     add64 (buf_free ls)
       (add64 (sub64 (trailer_offset ls) (buf_free ls mod OS_FILE_LOG_BLOCK_SIZE)) (framing_size ls))"
  by (simp add: log_write_low_part_def fits_def Let_def)

lemma part_decreases:
  assumes rest: "0 < length (fst (log_write_low_part str ls))"
  shows "2 * length (fst (log_write_low_part str ls)) +
           (if buf_free (snd (log_write_low_part str ls)) mod 512 =
               trailer_offset (snd (log_write_low_part str ls)) then 1 else 0)
         < 2 * length str + (if buf_free ls mod 512 = trailer_offset ls then 1 else 0)"
proof -
  let ?len = "sub64 (trailer_offset ls) (buf_free ls mod OS_FILE_LOG_BLOCK_SIZE)"
  have nofit: "\<not> fits str ls"
    using rest part_fits_rest [of str ls] by auto
  have r: "fst (log_write_low_part str ls) = drop ?len str"
    using nofit by (rule part_nofit_rest)
  show ?thesis
  proof (cases "?len = 0")
    case True
    have "buf_free ls mod OS_FILE_LOG_BLOCK_SIZE < 2 ^ 64"
      by (rule less_trans [of _ 512]) (simp_all add: OS_FILE_LOG_BLOCK_SIZE_def)
    with True have eq: "trailer_offset ls = buf_free ls mod 512"
      using sub64_eq_0 [of "trailer_offset ls" "buf_free ls mod OS_FILE_LOG_BLOCK_SIZE"]
            trailer_offset_bounds [of ls]
      by (simp add: OS_FILE_LOG_BLOCK_SIZE_def)
    have fr: "add64 0 (framing_size ls) = framing_size ls"
      by (rule add64_small [THEN trans])
         (simp_all add: framing_size_def LOG_BLOCK_HDR_SIZE_def LOG_BLOCK_KEY_def
                        LOG_BLOCK_CHECKSUM_def)
    have "buf_free (snd (log_write_low_part str ls)) mod 512 =
          (buf_free ls + framing_size ls) mod 512"
      using nofit True by (simp add: part_nofit_buf_free fr add64_mod_512)
    also have "\<dots> = (buf_free ls mod 512 + framing_size ls) mod 512"
      by (simp add: mod_add_left_eq)
    also have "\<dots> = 12"
      using eq trailer_plus_framing [of ls] by simp
    finally have "buf_free (snd (log_write_low_part str ls)) mod 512 \<noteq>
                  trailer_offset (snd (log_write_low_part str ls))"
      using trailer_offset_neq_12 [of ls] by (simp add: part_trailer_offset)
    then show ?thesis
      using True r eq by simp
  next
    case False
    then have "length (drop ?len str) < length str"
      using rest r by simp
    then show ?thesis
      using r by (simp split: if_splits)
  qed
qed

function log_write_low :: "byte list \<Rightarrow> log_t \<Rightarrow> log_t" where
  "log_write_low str ls =
     (case log_write_low_part str ls of
        (str', ls') \<Rightarrow> if length str' > 0 then log_write_low str' ls' else ls')"
  by pat_completeness auto
termination
proof (relation "measure (\<lambda>(str, ls). 2 * length str +
                          (if buf_free ls mod 512 = trailer_offset ls then 1 else 0))")
  show "wf (measure (\<lambda>(str, ls). 2 * length str +
                          (if buf_free ls mod 512 = trailer_offset ls then 1 else 0)))"
    by simp
next
  fix str :: "byte list" and ls :: log_t and str' ls'
  assume p: "(str', ls') = log_write_low_part str ls" and pos: "0 < length str'"
  have s: "str' = fst (log_write_low_part str ls)" and l: "ls' = snd (log_write_low_part str ls)"
    by (simp_all only: p [symmetric] fst_conv snd_conv)
  show "((str', ls'), (str, ls)) \<in> measure (\<lambda>(str, ls). 2 * length str +
                          (if buf_free ls mod 512 = trailer_offset ls then 1 else 0))"
    using part_decreases [of str ls] pos unfolding s l by (simp add: case_prod_beta)
qed

lemma log_write_low_unfold:
  "log_write_low str ls =
     (if length (fst (log_write_low_part str ls)) > 0
      then log_write_low (fst (log_write_low_part str ls)) (snd (log_write_low_part str ls))
      else snd (log_write_low_part str ls))"
  by (subst log_write_low.simps) (simp add: case_prod_beta)

subsection \<open>Writing the log buffer to the data file\<close>

text \<open>Sequencing of steps that may abort the process.\<close>

definition and_then :: "abort + 'a \<Rightarrow> ('a \<Rightarrow> abort + 'b) \<Rightarrow> abort + 'b" where
  "and_then r f = (case r of Inl a \<Rightarrow> Inl a | Inr x \<Rightarrow> f x)"

text \<open>
  \<^verbatim>\<open>log_t::file::calc_lsn_offset\<close>. A difference that is negative as \<^verbatim>\<open>longlong\<close> is at least
  \<open>2^63\<close> as \<^verbatim>\<open>lsn_t\<close>. The remainder by a file size of 0 traps in the source; the callers
  below stop with \<open>Division_by_zero\<close> before they get here.
\<close>

definition calc_lsn_offset :: "lsn_t \<Rightarrow> log_t_file \<Rightarrow> lsn_t" where
  "calc_lsn_offset l f =
     (let fsize = file_size f;
          d = sub64 l (file_lsn f);
          d = (if 2 ^ 63 \<le> d then fsize - sub64 0 d mod fsize else d);
          d = add64 d (lsn_offset f)
      in d mod fsize)"

definition set_fields :: "lsn_t \<Rightarrow> log_t_file \<Rightarrow> log_t_file" where
  "set_fields l f =
     (let c_lsn_offset = calc_lsn_offset l f
      in f\<lparr>file_lsn := l, lsn_offset := c_lsn_offset\<rparr>)"

definition data_writes_are_durable :: "log_t_file \<Rightarrow> bool" where
  "data_writes_are_durable f = writes_are_durable (data_fd f)"

text \<open>\<^verbatim>\<open>log_t::file::data_write\<close> and \<^verbatim>\<open>data_flush_data_only\<close>: an error code is fatal.\<close>

definition data_write :: "os_offset_t \<Rightarrow> byte list \<Rightarrow> log_t_file \<Rightarrow> abort + log_t_file" where
  "data_write offset bs f =
     (let r = file_write offset bs (data_fd f)
      in if fst r \<noteq> DB_SUCCESS then Inl Fatal_error else Inr (f\<lparr>data_fd := snd r\<rparr>))"

definition data_flush_data_only :: "log_t \<Rightarrow> abort + log_t" where
  "data_flush_data_only ls =
     (let ls1 = ls\<lparr>pending_flushes := add64 (pending_flushes ls) 1\<rparr>;
          r = file_flush_data_only (data_fd (log ls1))
      in if fst r \<noteq> DB_SUCCESS then Inl Fatal_error
         else Inr (ls1\<lparr>log := (log ls1)\<lparr>data_fd := snd r\<rparr>,
                        pending_flushes := sub64 (pending_flushes ls1) 1,
                        flushes := add64 (flushes ls1) 1\<rparr>))"

text \<open>
  \<^verbatim>\<open>log_write_buf\<close>, from the label \<^verbatim>\<open>loop\<close> on: the part of the buffer up to the end of the
  data file is checksummed block by block and written, and the rest follows from the
  start of the file.
\<close>

function log_write_buf_loop :: "nat \<Rightarrow> nat \<Rightarrow> lsn_t \<Rightarrow> world \<Rightarrow> abort + world" where
  "log_write_buf_loop buf' len start_lsn w =
     (if len = 0 then Inr w
      else if file_size (log (log_sys w)) = 0 then Inl Division_by_zero
      else
        let fsize = file_size (log (log_sys w));
            next_offset = calc_lsn_offset start_lsn (log (log_sys w));
            write_len = (if add64 (next_offset mod fsize) len > fsize
                         then fsize - next_offset mod fsize else len);
            mem = fold (\<lambda>i m. log_block_store_checksum m (buf' + i * OS_FILE_LOG_BLOCK_SIZE))
                       [0 ..< write_len div OS_FILE_LOG_BLOCK_SIZE] (buf_mem (log_sys w));
            ls = (log_sys w)\<lparr>buf_mem := mem, n_log_ios := add64 (n_log_ios (log_sys w)) 1\<rparr>;
            r = data_write next_offset (mem_read mem buf' write_len) (log ls)
        in case r of
             Inl a \<Rightarrow> Inl a
           | Inr f \<Rightarrow>
               if write_len < len
               then log_write_buf_loop (buf' + write_len) (len - write_len)
                      (add64 start_lsn write_len) (w\<lparr>log_sys := ls\<lparr>log := f\<rparr>\<rparr>)
               else Inr (w\<lparr>log_sys := ls\<lparr>log := f\<rparr>\<rparr>))"
  by pat_completeness auto
termination
  by (relation "measure (\<lambda>(buf', len, start_lsn, w). len)") (auto split: if_splits)

definition log_write_buf :: "nat \<Rightarrow> nat \<Rightarrow> lsn_t \<Rightarrow> nat \<Rightarrow> world \<Rightarrow> abort + world" where
  "log_write_buf buf' len start_lsn new_data_offset w =
     (if len mod OS_FILE_LOG_BLOCK_SIZE \<noteq> 0 then Inl Assertion_failure
      else if start_lsn mod OS_FILE_LOG_BLOCK_SIZE \<noteq> 0 then Inl Assertion_failure
      else log_write_buf_loop buf' len start_lsn w)"

text \<open>
  \<^verbatim>\<open>log_write_flush_to_disk_low\<close>: flush the data file, then publish \<open>l\<close> as the flushed
  LSN; \<^verbatim>\<open>ut_a\<close> aborts when that would move the flushed LSN backwards.
\<close>

definition log_write_flush_to_disk_low :: "lsn_t \<Rightarrow> world \<Rightarrow> abort + world" where
  "log_write_flush_to_disk_low l w =
     and_then (data_flush_data_only (log_sys w)) (\<lambda>ls.
       if \<not> (l \<ge> flushed_to_disk_lsn ls) then Inl Assertion_failure
       else Inr (w\<lparr>log_sys := ls\<lparr>flushed_to_disk_lsn := l\<rparr>\<rparr>))"

text \<open>\<^verbatim>\<open>log_buffer_switch\<close>.\<close>

definition log_buffer_switch :: "world \<Rightarrow> world" where
  "log_buffer_switch w =
     (let ls = log_sys w;
          old_buf = buf ls;
          area_end = ut_calc_align (buf_free ls) OS_FILE_LOG_BLOCK_SIZE;
          ls = (if first_in_use ls
                then ls\<lparr>first_in_use := False, buf := buf ls + srv_log_buffer_size w\<rparr>
                else ls\<lparr>first_in_use := True, buf := sub64 (buf ls) (srv_log_buffer_size w)\<rparr>);
          ls = ls\<lparr>buf_mem := memcpy (buf_mem ls) (buf ls)
                       (mem_read (buf_mem ls) (old_buf + area_end - OS_FILE_LOG_BLOCK_SIZE)
                          OS_FILE_LOG_BLOCK_SIZE)\<rparr>;
          ls = ls\<lparr>buf_free := buf_free ls mod OS_FILE_LOG_BLOCK_SIZE\<rparr>;
          ls = ls\<lparr>buf_next_to_write := buf_free ls\<rparr>
      in w\<lparr>log_sys := ls\<rparr>)"

text \<open>
  \<^verbatim>\<open>log_write\<close>. \<open>511 - end_offset mod 512\<close> is \<^verbatim>\<open>~end_offset & (OS_FILE_LOG_BLOCK_SIZE - 1)\<close>.
  The notification of the service manager during shutdown is not part of the model.
\<close>

definition log_write :: "world \<Rightarrow> abort + world" where
  "log_write w =
     (if buf_free (log_sys w) = buf_next_to_write (log_sys w) then Inr w
      else if file_size (log (log_sys w)) = 0 then Inl Division_by_zero
      else
        let write_ahead_size = srv_log_write_ahead_size w;
            start_offset = buf_next_to_write (log_sys w);
            end_offset = buf_free (log_sys w);
            area_start = ut_2pow_round start_offset OS_FILE_LOG_BLOCK_SIZE;
            area_end = ut_calc_align end_offset OS_FILE_LOG_BLOCK_SIZE;
            mem = log_block_set_flush_bit (buf_mem (log_sys w)) (buf (log_sys w) + area_start) True;
            mem = log_block_set_checkpoint_no mem
                    (buf (log_sys w) + area_end - OS_FILE_LOG_BLOCK_SIZE)
                    (next_checkpoint_no (log_sys w));
            write_lsn' = lsn (log_sys w);
            write_buf = buf (log_sys w);
            w = log_buffer_switch (w\<lparr>log_sys := (log_sys w)\<lparr>buf_mem := mem\<rparr>\<rparr>);
            w = w\<lparr>log_sys := (log_sys w)
                  \<lparr>log := set_fields (write_lsn (log_sys w)) (log (log_sys w))\<rparr>\<rparr>;
            mem = memset (buf_mem (log_sys w)) (write_buf + end_offset) 0
                    (511 - end_offset mod OS_FILE_LOG_BLOCK_SIZE);
            end_offset_in_unit =
              calc_lsn_offset (ut_calc_align write_lsn' OS_FILE_LOG_BLOCK_SIZE) (log (log_sys w))
                mod write_ahead_size;
            pad_size =
              (if write_ahead_size > OS_FILE_LOG_BLOCK_SIZE \<and> end_offset_in_unit > 0 \<and>
                     sub64 area_end area_start > end_offset_in_unit
               then min (write_ahead_size - end_offset_in_unit)
                        (sub64 (srv_log_buffer_size w) area_end)
               else 0);
            mem = memset mem (write_buf + area_end) 0 pad_size;
            mem = (if (if is_physical (log (log_sys w))
                       then is_encrypted_physical (log (log_sys w))
                       else is_encrypted_old (log (log_sys w)))
                   then log_crypt w mem (write_buf + area_start) (write_lsn (log_sys w))
                          (sub64 area_end area_start)
                   else mem);
            w = w\<lparr>log_sys := (log_sys w)\<lparr>buf_mem := mem\<rparr>\<rparr>
        in and_then
             (log_write_buf (write_buf + area_start) (add64 (sub64 area_end area_start) pad_size)
                (ut_2pow_round (write_lsn (log_sys w)) OS_FILE_LOG_BLOCK_SIZE)
                (start_offset - area_start) w)
             (\<lambda>w. Inr (w\<lparr>log_sys := (log_sys w)
                          \<lparr>write_lsn := write_lsn',
                           flushed_to_disk_lsn :=
                             (if data_writes_are_durable (log (log_sys w)) then write_lsn'
                              else flushed_to_disk_lsn (log_sys w))\<rparr>\<rparr>)))"

text \<open>\<^verbatim>\<open>redo_t::flush_data\<close>.\<close>

definition flush_data :: "redo_t \<Rightarrow> dberr_t \<times> redo_t" where
  "flush_data r =
     (let x = file_flush_data_only (m_data_file r) in (fst x, r\<lparr>m_data_file := snd x\<rparr>))"

text \<open>
  \<^verbatim>\<open>log_write_up_to\<close>. The caller's LSN is \<open>l\<close>. The error code of \<^verbatim>\<open>flush_data\<close> is dropped,
  as in the source.
\<close>

definition log_write_up_to :: "lsn_t \<Rightarrow> bool \<Rightarrow> world \<Rightarrow> abort + world" where
  "log_write_up_to l flush_to_disk w =
     (if recv_no_ibuf_operations w then Inr w
      else if flush_to_disk \<and> acquire l (flush_lock w) \<noteq> ACQUIRED then Inr w
      else
        and_then
          (if acquire l (write_lock w) = ACQUIRED
           then
             let write_lsn' = lsn (log_sys w);
                 w = w\<lparr>write_lock := set_pending write_lsn' (write_lock w)\<rparr>
             in and_then (log_write w) (\<lambda>w.
                  if write_lsn (log_sys w) \<noteq> write_lsn' then Inl Assertion_failure
                  else Inr (w\<lparr>write_lock := release write_lsn' (write_lock w)\<rparr>))
           else Inr w)
          (\<lambda>w.
             if \<not> flush_to_disk then Inr w
             else
               let flush_lsn = m_value (write_lock w);
                   w = w\<lparr>flush_lock := set_pending flush_lsn (flush_lock w)\<rparr>
               in and_then
                    (if \<not> data_writes_are_durable (log (log_sys w))
                     then and_then (log_write_flush_to_disk_low flush_lsn w) (\<lambda>w.
                            Inr (w\<lparr>new_redo := snd (flush_data (new_redo w))\<rparr>))
                     else Inr w)
                    (\<lambda>w. Inr (emit (Innobase_mysql_log_notify flush_lsn)
                                 (w\<lparr>flush_lock := release flush_lsn (flush_lock w)\<rparr>)))))"

subsection \<open>Checkpoints\<close>

text \<open>
  Modelled from the spec: the record type \<^verbatim>\<open>FILE_CHECKPOINT\<close> (mtr0types.h) is not under
  \<^verbatim>\<open>src/\<close>; the spec gives the tag of a checkpoint record as \<^verbatim>\<open>FILE_CHECKPOINT | 14\<close>.
\<close>

definition FILE_CHECKPOINT :: nat where "FILE_CHECKPOINT = 0xF0"

definition CHECKPOINT_SIZE :: nat where "CHECKPOINT_SIZE = 1 + 8 + 6 + 4"

text \<open>\<^verbatim>\<open>redo_t::append_checkpoint_durable_impl\<close>, on the file it is given.\<close>

definition append_checkpoint_durable_impl ::
    "log_file_t \<Rightarrow> os_offset_t \<Rightarrow> lsn_t \<Rightarrow> nat \<Rightarrow> 1 word \<Rightarrow> dberr_t \<times> log_file_t" where
  "append_checkpoint_durable_impl file tail l data_file_offset sequence_bit =
     (let bs = of_nat (FILE_CHECKPOINT OR (8 + 6)) # mach_write_to 8 l @
               mach_write_to 6 (push_bit 47 (unat sequence_bit) OR data_file_offset);
          bs = bs @ mach_write_to 4 (unat (ut_crc32 bs));
          r = file_write tail bs file
      in if fst r \<noteq> DB_SUCCESS then r
         else if \<not> writes_are_durable (snd r)
         then (let r' = file_flush_data_only (snd r)
               in if fst r' \<noteq> DB_SUCCESS then r' else (DB_SUCCESS, snd r'))
         else (DB_SUCCESS, snd r))"

definition append_checkpoint_durable :: "lsn_t \<Rightarrow> redo_t \<Rightarrow> dberr_t \<times> redo_t" where
  "append_checkpoint_durable l r =
     (let x = append_checkpoint_durable_impl (m_main_file r) (m_main_file_size r) l
                (m_data_file_position r) (m_sequence_bit r)
      in if fst x \<noteq> DB_SUCCESS then (fst x, r\<lparr>m_main_file := snd x\<rparr>)
         else (DB_SUCCESS, r\<lparr>m_main_file := snd x,
                              m_main_file_size := add64 (m_main_file_size r) CHECKPOINT_SIZE\<rparr>))"

definition log_buf_pool_get_oldest_modification :: "world \<Rightarrow> lsn_t" where
  "log_buf_pool_get_oldest_modification w =
     (let l = buf_pool_oldest_modification w
      in if l = 0 then lsn (log_sys w) else l)"

text \<open>
  \<^verbatim>\<open>log_checkpoint\<close>. The error code of \<^verbatim>\<open>append_checkpoint_durable\<close> is dropped, as in the
  source. A state in which \<open>n_pending_checkpoint_writes\<close> is not 0 is one in which another
  thread is inside its checkpoint write.
\<close>

definition log_checkpoint :: "world \<Rightarrow> abort + bool \<times> world" where
  "log_checkpoint w =
     (let w = (if recv_recovery_on w then emit Recv_apply_hashed_log_recs w else w);
          w = (if srv_file_flush_method w \<noteq> SRV_NOSYNC then emit Fil_flush_file_spaces w else w);
          flush_lsn = log_buf_pool_get_oldest_modification w;
          success = (flush_lsn = last_checkpoint_lsn (log_sys w))
      in if success then Inr (success, w)
         else
           and_then (log_write_up_to flush_lsn True w) (\<lambda>w.
             let success = (last_checkpoint_lsn (log_sys w) = flush_lsn)
             in if success \<or> n_pending_checkpoint_writes (log_sys w) \<noteq> 0 then Inr (success, w)
                else
                  let w = w\<lparr>log_sys := (log_sys w)
                            \<lparr>next_checkpoint_lsn := flush_lsn,
                             n_pending_checkpoint_writes :=
                               add64 (n_pending_checkpoint_writes (log_sys w)) 1\<rparr>\<rparr>;
                      w = w\<lparr>new_redo := snd (append_checkpoint_durable flush_lsn (new_redo w))\<rparr>;
                      ls = log_sys w;
                      ls = ls\<lparr>n_pending_checkpoint_writes :=
                                sub64 (n_pending_checkpoint_writes ls) 1\<rparr>;
                      ls = ls\<lparr>n_log_ios := add64 (n_log_ios ls) 1\<rparr>;
                      ls = ls\<lparr>last_checkpoint_lsn := next_checkpoint_lsn ls\<rparr>
                  in Inr (True, w\<lparr>log_sys := ls\<rparr>)))"

text \<open>
  \<^verbatim>\<open>log_margin_checkpoint_age\<close>. \<^verbatim>\<open>time(NULL)\<close> is read once if no warning was printed
  before, and otherwise once for the test and once more for the stamp if the test
  succeeds. \<^verbatim>\<open>difftime\<close> of two \<^verbatim>\<open>time_t\<close> values is their difference in seconds.
\<close>

definition log_margin_checkpoint_age :: "nat \<Rightarrow> world \<Rightarrow> abort + world" where
  "log_margin_checkpoint_age margin w =
     (if margin > log_capacity (log_sys w)
      then
        (let c = (if \<not> log_has_printed_chkp_margine_warning w then (True, w)
                  else (let t = time_now w
                        in (fst t - log_last_margine_warning_time w > 15, snd t)))
         in if fst c
            then
              (let w = (snd c)\<lparr>log_has_printed_chkp_margine_warning := True\<rparr>;
                   t = time_now w;
                   w = (snd t)\<lparr>log_last_margine_warning_time := fst t\<rparr>
               in Inr (emit (Error_log_too_small margin (log_capacity (log_sys w))) w))
            else Inr (snd c))
      else if add64 (sub64 (lsn (log_sys w)) (last_checkpoint_lsn (log_sys w))) margin
              > log_capacity (log_sys w)
      then
        (let flushed_enough =
               (add64 (sub64 (lsn (log_sys w)) (log_buf_pool_get_oldest_modification w)) margin
                  \<le> log_capacity (log_sys w));
             w = w\<lparr>log_sys := (log_sys w)\<lparr>check_flush_or_checkpoint := True\<rparr>\<rparr>;
             w = (if \<not> flushed_enough then emit (Thread_sleep 100000) w else w)
         in and_then (log_checkpoint w) (\<lambda>r. Inr (snd r)))
      else Inr w)"

subsection \<open>Records of the data file: \<^verbatim>\<open>redo_t::append_mtr_data\<close>\<close>

text \<open>
  Modelled from the spec: \<^verbatim>\<open>mlog_encode_varint\<close> (mtr0log.h) is not under \<^verbatim>\<open>src/\<close>. The spec
  calls the header of a record a varint; this is the encoding in one to five bytes, the
  leading bits of the first byte giving the length. \<^verbatim>\<open>append_mtr_data\<close> below takes the
  encoder as a parameter: what is proved about it holds for every encoder, and this one
  is used where the definitions are run.
\<close>

definition MIN_2BYTE :: nat where "MIN_2BYTE = 2 ^ 7"
definition MIN_3BYTE :: nat where "MIN_3BYTE = MIN_2BYTE + 2 ^ 14"
definition MIN_4BYTE :: nat where "MIN_4BYTE = MIN_3BYTE + 2 ^ 21"
definition MIN_5BYTE :: nat where "MIN_5BYTE = MIN_4BYTE + 2 ^ 28"

definition mlog_encode_varint :: "nat \<Rightarrow> byte list" where
  "mlog_encode_varint i =
     (if i < MIN_2BYTE then [of_nat i]
      else if i < MIN_3BYTE
      then (let i = i - MIN_2BYTE in [0x80 OR of_nat (i div 2 ^ 8), of_nat i])
      else if i < MIN_4BYTE
      then (let i = i - MIN_3BYTE
            in [0xC0 OR of_nat (i div 2 ^ 16), of_nat (i div 2 ^ 8), of_nat i])
      else if i < MIN_5BYTE
      then (let i = i - MIN_4BYTE
            in [0xE0 OR of_nat (i div 2 ^ 24), of_nat (i div 2 ^ 16), of_nat (i div 2 ^ 8),
                of_nat i])
      else (let i = i - MIN_5BYTE
            in [0xF0, of_nat (i div 2 ^ 24), of_nat (i div 2 ^ 16), of_nat (i div 2 ^ 8),
                of_nat i]))"

text \<open>
  \<^verbatim>\<open>redo_t::append_mtr_data\<close>. The payload is the list of the blocks of the \<^verbatim>\<open>mtr_buf_t\<close>.
  \<open>size\<close> and the header value are \<^verbatim>\<open>uint32_t\<close>. The checksum is computed over the vector
  that starts with the header without sequence bit; afterwards the header with the
  sequence bit is encoded over the start of the vector.
\<close>

definition append_mtr_data ::
    "(nat \<Rightarrow> byte list) \<Rightarrow> byte list list \<Rightarrow> redo_t \<Rightarrow> dberr_t \<times> redo_t" where
  "append_mtr_data encode_varint payload r =
     (let size' = (length (concat payload) + 4) mod 2 ^ 32;
          header = encode_varint (push_bit 2 size' mod 2 ^ 32);
          v = header @ concat payload;
          v = v @ mach_write_to 4 (unat (ut_crc32 v));
          skip_bit = 0;
          header_end = encode_varint
                         ((push_bit 2 size' mod 2 ^ 32) OR push_bit 1 skip_bit OR
                          unat (m_sequence_bit r));
          v = header_end @ drop (length header_end) v
      in append_wrapped v r)"

subsection \<open>Concrete states used to run the definitions\<close>

text \<open>A file that answers every request with success, and a redo object whose cursor is
  two bytes before the end of an eight-byte data file.\<close>

definition closed_file :: log_file_t where
  "closed_file = \<lparr>file_bytes = [], m_durable_writes = False, io_answers = [], io_done = []\<rparr>"

definition redo_at_6_of_8 :: redo_t where
  "redo_at_6_of_8 =
     \<lparr>m_main_file = closed_file, m_main_file_size = 0,
      m_data_file = closed_file\<lparr>file_bytes := [0, 0, 0, 0, 0, 0, 0, 0]\<rparr>,
      m_data_file_position = 6, m_data_file_size = 8, m_sequence_bit = 1\<rparr>"

text \<open>The local \<open>free\<close> of \<^verbatim>\<open>log_set_capacity\<close>: the space reserved for the threads.\<close>

definition checkpoint_free :: "world \<Rightarrow> nat" where
  "checkpoint_free w =
     add64 ((LOG_CHECKPOINT_FREE_PER_THREAD w * add64 10 (srv_thread_concurrency w)) mod 2 ^ 64)
           (LOG_CHECKPOINT_EXTRA_FREE w)"

text \<open>
  A server at rest: everything up to LSN 8204 is written, flushed and checkpointed, no
  page is dirty, the log buffer holds the header of its first block, and the data file
  has 4 MiB.
\<close>

definition example_log_file :: log_t_file where
  "example_log_file =
     \<lparr>format = FORMAT_10_5, key_version = 0, file_size = 4194304, file_lsn = 1, lsn_offset = 0,
      fd = closed_file, data_fd = closed_file\<rparr>"

definition example_log_sys :: log_t where
  "example_log_sys =
     \<lparr>lsn = 8204, buf_free = 12, buf_mem = (\<lambda>a. 0), buf = 0, first_in_use = True,
      max_buf_free = 8321024, check_flush_or_checkpoint = False, log = example_log_file,
      buf_next_to_write = 12, write_lsn = 8204, flushed_to_disk_lsn = 8204,
      pending_flushes = 0, flushes = 0, n_log_ios = 0, log_capacity = 0,
      max_modified_age_async = 0, max_modified_age_sync = 0, max_checkpoint_age_async = 0,
      max_checkpoint_age = 0, next_checkpoint_no = 0, last_checkpoint_lsn = 8204,
      next_checkpoint_lsn = 0, n_pending_checkpoint_writes = 0\<rparr>"

definition example_world :: world where
  "example_world =
     \<lparr>log_sys = example_log_sys, new_redo = redo_at_6_of_8,
      write_lock = \<lparr>m_value = 8204, m_pending = 8204\<rparr>,
      flush_lock = \<lparr>m_value = 8204, m_pending = 8204\<rparr>,
      log_has_printed_chkp_margine_warning = False, log_last_margine_warning_time = 0,
      clock = (\<lambda>n. 1000 + int n), clock_reads = 0, events = [],
      srv_page_size_shift = 14, srv_thread_concurrency = 0, srv_log_buffer_size = 16777216,
      srv_log_write_ahead_size = 8192, srv_file_flush_method = SRV_FSYNC,
      recv_no_ibuf_operations = False, recv_recovery_on = False,
      buf_pool_oldest_modification = 0, log_crypt = (\<lambda>mem a l n. mem)\<rparr>"

subsection \<open>Predicates and parts of functions used in the proofs\<close>

text \<open>What a write of the log buffer leaves as it is.\<close>

definition write_frame :: "world \<Rightarrow> world \<Rightarrow> bool" where
  "write_frame w w' \<longleftrightarrow>
     lsn (log_sys w') = lsn (log_sys w) \<and>
     write_lsn (log_sys w') = write_lsn (log_sys w) \<and>
     flushed_to_disk_lsn (log_sys w') = flushed_to_disk_lsn (log_sys w) \<and>
     last_checkpoint_lsn (log_sys w') = last_checkpoint_lsn (log_sys w) \<and>
     next_checkpoint_lsn (log_sys w') = next_checkpoint_lsn (log_sys w) \<and>
     n_pending_checkpoint_writes (log_sys w') = n_pending_checkpoint_writes (log_sys w) \<and>
     data_writes_are_durable (log (log_sys w')) = data_writes_are_durable (log (log_sys w)) \<and>
     file_size (log (log_sys w')) = file_size (log (log_sys w)) \<and>
     write_lock w' = write_lock w \<and> flush_lock w' = flush_lock w \<and>
     new_redo w' = new_redo w \<and> events w' = events w \<and>
     recv_no_ibuf_operations w' = recv_no_ibuf_operations w \<and>
     recv_recovery_on w' = recv_recovery_on w \<and>
     srv_file_flush_method w' = srv_file_flush_method w \<and>
     buf_pool_oldest_modification w' = buf_pool_oldest_modification w"

text \<open>The state of \<^verbatim>\<open>log_write\<close> after the buffer switch and \<^verbatim>\<open>set_fields\<close>.\<close>

definition switched :: "world \<Rightarrow> memory \<Rightarrow> world" where
  "switched w mem =
     (let w1 = log_buffer_switch (w\<lparr>log_sys := (log_sys w)\<lparr>buf_mem := mem\<rparr>\<rparr>)
      in w1\<lparr>log_sys := (log_sys w1)
             \<lparr>log := set_fields (write_lsn (log_sys w1)) (log (log_sys w1))\<rparr>\<rparr>)"

text \<open>The two halves of \<^verbatim>\<open>log_write_up_to\<close>: the write wave and the flush wave.\<close>

definition write_wave :: "lsn_t \<Rightarrow> world \<Rightarrow> abort + world" where
  "write_wave l w =
     (if acquire l (write_lock w) = ACQUIRED
      then
        let write_lsn' = lsn (log_sys w);
            w = w\<lparr>write_lock := set_pending write_lsn' (write_lock w)\<rparr>
        in and_then (log_write w) (\<lambda>w.
             if write_lsn (log_sys w) \<noteq> write_lsn' then Inl Assertion_failure
             else Inr (w\<lparr>write_lock := release write_lsn' (write_lock w)\<rparr>))
      else Inr w)"

definition flush_wave :: "world \<Rightarrow> abort + world" where
  "flush_wave w =
     (let flush_lsn = m_value (write_lock w);
          w = w\<lparr>flush_lock := set_pending flush_lsn (flush_lock w)\<rparr>
      in and_then
           (if \<not> data_writes_are_durable (log (log_sys w))
            then and_then (log_write_flush_to_disk_low flush_lsn w) (\<lambda>w.
                   Inr (w\<lparr>new_redo := snd (flush_data (new_redo w))\<rparr>))
            else Inr w)
           (\<lambda>w. Inr (emit (Innobase_mysql_log_notify flush_lsn)
                        (w\<lparr>flush_lock := release flush_lsn (flush_lock w)\<rparr>))))"

text \<open>
  The log and its locks agree: no lock publishes more than the log has reached, and with
  durable writes what is written is flushed.
\<close>

definition locks_consistent :: "world \<Rightarrow> bool" where
  "locks_consistent w \<longleftrightarrow>
     m_value (flush_lock w) \<le> flushed_to_disk_lsn (log_sys w) \<and>
     flushed_to_disk_lsn (log_sys w) \<le> lsn (log_sys w) \<and>
     m_value (write_lock w) \<le> lsn (log_sys w) \<and>
     (data_writes_are_durable (log (log_sys w)) \<longrightarrow>
        write_lsn (log_sys w) \<le> flushed_to_disk_lsn (log_sys w) \<and>
        m_value (write_lock w) \<le> flushed_to_disk_lsn (log_sys w))"

text \<open>
  The server at rest, but flushed only up to LSN 8000; and the server at rest after 100
  more bytes were appended to the log buffer.
\<close>

definition example_unflushed :: world where
  "example_unflushed =
     example_world\<lparr>log_sys := example_log_sys\<lparr>flushed_to_disk_lsn := 8000\<rparr>,
                    flush_lock := \<lparr>m_value = 8000, m_pending = 8000\<rparr>\<rparr>"

definition example_appended :: world where
  "example_appended =
     example_world\<lparr>log_sys := example_log_sys\<lparr>lsn := 8304, buf_free := 112\<rparr>\<rparr>"

text \<open>What \<^verbatim>\<open>log_write_up_to\<close> leaves as it is, for the checkpoint that follows it.\<close>

definition checkpoint_frame :: "world \<Rightarrow> world \<Rightarrow> bool" where
  "checkpoint_frame w w' \<longleftrightarrow>
     lsn (log_sys w') = lsn (log_sys w) \<and>
     last_checkpoint_lsn (log_sys w') = last_checkpoint_lsn (log_sys w) \<and>
     next_checkpoint_lsn (log_sys w') = next_checkpoint_lsn (log_sys w) \<and>
     n_pending_checkpoint_writes (log_sys w') = n_pending_checkpoint_writes (log_sys w) \<and>
     m_main_file (new_redo w') = m_main_file (new_redo w) \<and>
     m_main_file_size (new_redo w') = m_main_file_size (new_redo w) \<and>
     m_data_file_position (new_redo w') = m_data_file_position (new_redo w) \<and>
     m_sequence_bit (new_redo w') = m_sequence_bit (new_redo w) \<and>
     buf_pool_oldest_modification w' = buf_pool_oldest_modification w"

text \<open>The state in which \<^verbatim>\<open>log_checkpoint\<close> takes the log mutex for the first time.\<close>

definition checkpoint_prepared :: "world \<Rightarrow> world" where
  "checkpoint_prepared w =
     (let w = (if recv_recovery_on w then emit Recv_apply_hashed_log_recs w else w)
      in if srv_file_flush_method w \<noteq> SRV_NOSYNC then emit Fil_flush_file_spaces w else w)"

text \<open>The record that \<^verbatim>\<open>append_checkpoint_durable_impl\<close> builds.\<close>

definition checkpoint_record :: "lsn_t \<Rightarrow> nat \<Rightarrow> 1 word \<Rightarrow> byte list" where
  "checkpoint_record l data_file_offset sequence_bit =
     (let bs = of_nat (FILE_CHECKPOINT OR (8 + 6)) # mach_write_to 8 l @
               mach_write_to 6 (push_bit 47 (unat sequence_bit) OR data_file_offset)
      in bs @ mach_write_to 4 (unat (ut_crc32 bs)))"

text \<open>What \<^verbatim>\<open>log_checkpoint\<close> does once \<^verbatim>\<open>log_write_up_to\<close> has returned.\<close>

definition checkpoint_finish :: "lsn_t \<Rightarrow> world \<Rightarrow> abort + bool \<times> world" where
  "checkpoint_finish flush_lsn w3 =
     (if last_checkpoint_lsn (log_sys w3) = flush_lsn then Inr (True, w3)
      else if n_pending_checkpoint_writes (log_sys w3) \<noteq> 0 then Inr (False, w3)
      else Inr (True,
        w3\<lparr>new_redo := snd (append_checkpoint_durable flush_lsn (new_redo w3)),
            log_sys := (log_sys w3)
              \<lparr>next_checkpoint_lsn := flush_lsn,
               n_pending_checkpoint_writes :=
                 sub64 (add64 (n_pending_checkpoint_writes (log_sys w3)) 1) 1,
               n_log_ios := add64 (n_log_ios (log_sys w3)) 1,
               last_checkpoint_lsn := flush_lsn\<rparr>\<rparr>))"

text \<open>
  The server at rest with its last checkpoint at LSN 8000 and a dirty page whose oldest
  modification is at LSN 8100; and the same while another thread writes a checkpoint.
\<close>

definition example_dirty :: world where
  "example_dirty =
     example_world\<lparr>log_sys := example_log_sys\<lparr>last_checkpoint_lsn := 8000\<rparr>,
                    buf_pool_oldest_modification := 8100\<rparr>"

definition example_busy :: world where
  "example_busy =
     example_world\<lparr>log_sys := example_log_sys\<lparr>last_checkpoint_lsn := 8000,
                                                n_pending_checkpoint_writes := 1\<rparr>,
                    buf_pool_oldest_modification := 8100\<rparr>"

subsection \<open>Records of the data file, for the statements\<close>

text \<open>
  The \<^verbatim>\<open>uint32_t\<close> \<open>size\<close> of a record and the value of its header,
  \<^verbatim>\<open>size << 2 | skip_bit << 1 | sequence_bit\<close>.
\<close>

definition record_size :: "byte list list \<Rightarrow> nat" where
  "record_size payload = (length (concat payload) + 4) mod 2 ^ 32"

definition data_header :: "nat \<Rightarrow> nat \<Rightarrow> nat \<Rightarrow> nat" where
  "data_header size' skip_bit sequence_bit =
     (push_bit 2 size' mod 2 ^ 32) OR push_bit 1 skip_bit OR sequence_bit"

text \<open>A redo object on an empty data file of 4 MiB, with the sequence bit set.\<close>

definition redo_initialized :: redo_t where
  "redo_initialized =
     \<lparr>m_main_file = closed_file, m_main_file_size = 19, m_data_file = closed_file,
      m_data_file_position = 0, m_data_file_size = 4194304, m_sequence_bit = 1\<rparr>"

subsection \<open>Blocks of the log buffer, for the statements\<close>

text \<open>
  The offset of \<^verbatim>\<open>buf_free\<close> in its block, and the block that \<^verbatim>\<open>log_write_low\<close> writes to:
  \<^verbatim>\<open>ut_align_down(log_sys.buf + log_sys.buf_free, OS_FILE_LOG_BLOCK_SIZE)\<close>.
\<close>

definition block_offset :: "log_t \<Rightarrow> nat" where
  "block_offset ls = buf_free ls mod OS_FILE_LOG_BLOCK_SIZE"

definition current_block :: "log_t \<Rightarrow> nat" where
  "current_block ls = ut_2pow_round (buf ls + buf_free ls) OS_FILE_LOG_BLOCK_SIZE"

text \<open>
  A pass from \<open>ls\<close> to \<open>ls'\<close> that copied \<open>written\<close> bytes completed the current block:
  the block has data length 512 and the checkpoint number, the LSN and \<^verbatim>\<open>buf_free\<close> moved
  over the bytes and the framing, and the header of the next block is that of an empty
  block at the new LSN.
\<close>

definition completes_block :: "log_t \<Rightarrow> nat \<Rightarrow> log_t \<Rightarrow> bool" where
  "completes_block ls written ls' \<longleftrightarrow>
     log_block_get_data_len (buf_mem ls') (current_block ls) = OS_FILE_LOG_BLOCK_SIZE \<and>
     log_block_get_checkpoint_no (buf_mem ls') (current_block ls) =
       next_checkpoint_no ls mod 2 ^ 32 \<and>
     lsn ls' = add64 (lsn ls) (written + framing_size ls) \<and>
     buf_free ls' = add64 (buf_free ls) (written + framing_size ls) \<and>
     mach_read_from
       (mem_read (buf_mem ls') (current_block ls + OS_FILE_LOG_BLOCK_SIZE + LOG_BLOCK_HDR_NO) 4) =
       log_block_convert_lsn_to_no (lsn ls') \<and>
     log_block_get_data_len (buf_mem ls') (current_block ls + OS_FILE_LOG_BLOCK_SIZE) =
       LOG_BLOCK_HDR_SIZE \<and>
     log_block_get_first_rec_group (buf_mem ls') (current_block ls + OS_FILE_LOG_BLOCK_SIZE) = 0"

text \<open>
  The number of blocks that \<open>n\<close> bytes appended at \<^verbatim>\<open>buf_free\<close> complete: a block holds
  the bytes between its header and its trailer.
\<close>

definition blocks_completed :: "log_t \<Rightarrow> nat \<Rightarrow> nat" where
  "blocks_completed ls n =
     (block_offset ls - LOG_BLOCK_HDR_SIZE + n) div (trailer_offset ls - LOG_BLOCK_HDR_SIZE)"

text \<open>
  The address of byte \<open>i\<close> of a string appended at \<^verbatim>\<open>buf_free\<close>: every block completed
  before the byte puts one framing, a trailer and a header, between it and the start.
\<close>

definition payload_address :: "log_t \<Rightarrow> nat \<Rightarrow> nat" where
  "payload_address ls i = buf ls + buf_free ls + i + blocks_completed ls i * framing_size ls"

section \<open>Properties\<close>

subsection \<open>Appending to the circular data file\<close>

lemma not_bit1_neq: "NOT (b :: 1 word) \<noteq> b"
proof
  assume "NOT b = b"
  then have "bit (NOT b) 0 = bit b 0" by simp
  then show False by (simp add: bit_not_iff)
qed

lemma file_write_success:
  "next_answer f = DB_SUCCESS \<Longrightarrow>
   file_write offset bs f =
     (DB_SUCCESS, f\<lparr>file_bytes := pwrite (file_bytes f) offset bs,
                      io_answers := tl (io_answers f),
                      io_done := io_done f @ [IO_write offset bs]\<rparr>)"
  by (simp add: file_write_def)

lemma file_write_failure:
  "next_answer f \<noteq> DB_SUCCESS \<Longrightarrow>
   file_write offset bs f = (next_answer f, f\<lparr>io_answers := tl (io_answers f)\<rparr>)"
  by (simp add: file_write_def)

lemma append_wrapped_split:
  assumes pos: "m_data_file_position r < m_data_file_size r"
      and len: "length bs < m_data_file_size r"
      and sz: "m_data_file_size r \<le> 2 ^ 63"
      and over: "m_data_file_size r < m_data_file_position r + length bs"
      and ok: "fst (append_wrapped bs r) = DB_SUCCESS"
  shows "io_done (m_data_file (snd (append_wrapped bs r))) =
              io_done (m_data_file r) @
                [IO_write (m_data_file_position r)
                   (take (m_data_file_size r - m_data_file_position r) bs),
                 IO_write 0 (drop (m_data_file_size r - m_data_file_position r) bs)] \<and>
            m_sequence_bit (snd (append_wrapped bs r)) = NOT (m_sequence_bit r) \<and>
            m_data_file_position (snd (append_wrapped bs r)) =
              m_data_file_position r + length bs - m_data_file_size r"
proof -
  let ?p = "m_data_file_position r" and ?n = "m_data_file_size r"
  have small: "?p + length bs < 2 ^ 64"
    using pos len sz by simp
  have a: "add64 ?p (length bs) = ?p + length bs"
    using small by (rule add64_small)
  have s: "sub64 ?n ?p = ?n - ?p"
    using pos sz by (simp add: sub64_small)
  have rest: "add64 0 (length bs - (?n - ?p)) = ?p + length bs - ?n"
    using small over pos by (simp add: add64_small)
  have ne: "?p + length bs - ?n \<noteq> ?n"
    using pos len by simp
  define f1 where "f1 = snd (file_write ?p (take (?n - ?p) bs) (m_data_file r))"
  have ok1: "next_answer (m_data_file r) = DB_SUCCESS"
  proof (rule ccontr)
    assume "next_answer (m_data_file r) \<noteq> DB_SUCCESS"
    then have "fst (append_wrapped bs r) \<noteq> DB_SUCCESS"
      using over by (simp add: append_wrapped_def a s file_write_failure)
    with ok show False by simp
  qed
  have w1: "file_write ?p (take (?n - ?p) bs) (m_data_file r) = (DB_SUCCESS, f1)"
    using ok1 by (simp add: f1_def file_write_success)
  have ok2: "next_answer f1 = DB_SUCCESS"
  proof (rule ccontr)
    assume "next_answer f1 \<noteq> DB_SUCCESS"
    then have "fst (append_wrapped bs r) \<noteq> DB_SUCCESS"
      using over by (simp add: append_wrapped_def a s w1 flip_sequence_bit_def file_write_failure)
    with ok show False by simp
  qed
  have done1: "io_done f1 = io_done (m_data_file r) @ [IO_write ?p (take (?n - ?p) bs)]"
    using ok1 by (simp add: f1_def file_write_success)
  show ?thesis
    using over ne
    by (simp add: append_wrapped_def a s w1 flip_sequence_bit_def file_write_success ok2 rest
                  done1 Let_def)
qed

lemma append_wrapped_plain:
  assumes pos: "m_data_file_position r < m_data_file_size r"
      and len: "length bs < m_data_file_size r"
      and sz: "m_data_file_size r \<le> 2 ^ 63"
      and fits: "m_data_file_position r + length bs \<le> m_data_file_size r"
      and ok: "fst (append_wrapped bs r) = DB_SUCCESS"
  shows "io_done (m_data_file (snd (append_wrapped bs r))) =
              io_done (m_data_file r) @ [IO_write (m_data_file_position r) bs] \<and>
            m_sequence_bit (snd (append_wrapped bs r)) = m_sequence_bit r \<and>
            m_data_file_position (snd (append_wrapped bs r)) =
              (if m_data_file_position r + length bs = m_data_file_size r then 0
               else m_data_file_position r + length bs)"
proof -
  let ?p = "m_data_file_position r" and ?n = "m_data_file_size r"
  have small: "?p + length bs < 2 ^ 64"
    using pos len sz by simp
  have a: "add64 ?p (length bs) = ?p + length bs"
    using small by (rule add64_small)
  have ok1: "next_answer (m_data_file r) = DB_SUCCESS"
  proof (rule ccontr)
    assume "next_answer (m_data_file r) \<noteq> DB_SUCCESS"
    then have "fst (append_wrapped bs r) \<noteq> DB_SUCCESS"
      using fits by (simp add: append_wrapped_def a file_write_failure)
    with ok show False by simp
  qed
  show ?thesis
    using fits by (simp add: append_wrapped_def a file_write_success ok1 Let_def)
qed

text \<open>
  Claim C4. An append of \<open>s < m_data_file_size\<close> bytes at cursor \<open>p < m_data_file_size\<close>
  that returns \<open>DB_SUCCESS\<close>: if \<open>p + s\<close> exceeds the file size, two writes are
  issued, the first \<open>size - p\<close> bytes at \<open>p\<close> and the remainder at offset 0, the
  sequence bit is complemented and the cursor ends at \<open>p + s - size\<close>; if \<open>p + s\<close>
  equals the file size, one write is issued, the sequence bit is kept and the cursor is
  0; if \<open>p + s\<close> is below the file size, one write is issued, the sequence bit is kept
  and the cursor is \<open>p + s\<close>. The file size is at most \<open>2^63\<close>, so that \<open>p + s\<close> does not
  leave the 64-bit range.
\<close>

theorem append_wrapped_cases:
  assumes pos: "m_data_file_position r < m_data_file_size r"
      and len: "length bs < m_data_file_size r"
      and sz: "m_data_file_size r \<le> 2 ^ 63"
      and ok: "fst (append_wrapped bs r) = DB_SUCCESS"
  shows "(m_data_file_position r + length bs > m_data_file_size r \<longrightarrow>
            io_done (m_data_file (snd (append_wrapped bs r))) =
              io_done (m_data_file r) @
                [IO_write (m_data_file_position r)
                   (take (m_data_file_size r - m_data_file_position r) bs),
                 IO_write 0 (drop (m_data_file_size r - m_data_file_position r) bs)] \<and>
            m_sequence_bit (snd (append_wrapped bs r)) = NOT (m_sequence_bit r) \<and>
            m_data_file_position (snd (append_wrapped bs r)) =
              m_data_file_position r + length bs - m_data_file_size r) \<and>
         (m_data_file_position r + length bs = m_data_file_size r \<longrightarrow>
            io_done (m_data_file (snd (append_wrapped bs r))) =
              io_done (m_data_file r) @ [IO_write (m_data_file_position r) bs] \<and>
            m_sequence_bit (snd (append_wrapped bs r)) = m_sequence_bit r \<and>
            m_data_file_position (snd (append_wrapped bs r)) = 0) \<and>
         (m_data_file_position r + length bs < m_data_file_size r \<longrightarrow>
            io_done (m_data_file (snd (append_wrapped bs r))) =
              io_done (m_data_file r) @ [IO_write (m_data_file_position r) bs] \<and>
            m_sequence_bit (snd (append_wrapped bs r)) = m_sequence_bit r \<and>
            m_data_file_position (snd (append_wrapped bs r)) =
              m_data_file_position r + length bs)"
  using append_wrapped_split [OF pos len sz _ ok] append_wrapped_plain [OF pos len sz _ ok]
  by (intro conjI impI) simp_all

lemma append_wrapped_size [simp]:
  "m_data_file_size (snd (append_wrapped bs r)) = m_data_file_size r"
  by (simp add: append_wrapped_def flip_sequence_bit_def Let_def case_prod_beta)

text \<open>
  Claim C9. An append of fewer than \<open>m_data_file_size\<close> bytes that starts with the
  cursor below the file size leaves the cursor below the file size, whether the append
  succeeds or a write fails on the way.
\<close>

theorem append_wrapped_cursor_below_size:
  assumes pos: "m_data_file_position r < m_data_file_size r"
      and len: "length bs < m_data_file_size r"
      and sz: "m_data_file_size r \<le> 2 ^ 63"
  shows "m_data_file_position (snd (append_wrapped bs r)) <
         m_data_file_size (snd (append_wrapped bs r))"
proof (cases "fst (append_wrapped bs r) = DB_SUCCESS")
  case True
  show ?thesis
  proof (cases "m_data_file_size r < m_data_file_position r + length bs")
    case over: True
    from append_wrapped_split [OF pos len sz over True] pos len show ?thesis by simp
  next
    case False
    then have fits: "m_data_file_position r + length bs \<le> m_data_file_size r" by simp
    from append_wrapped_plain [OF pos len sz fits True] pos fits show ?thesis
      by (simp split: if_splits)
  qed
next
  case failed: False
  let ?p = "m_data_file_position r" and ?n = "m_data_file_size r"
  have a: "add64 ?p (length bs) = ?p + length bs"
    using pos len sz by (intro add64_small) simp
  have s: "sub64 ?n ?p = ?n - ?p"
    using pos sz by (simp add: sub64_small)
  define f1 where "f1 = snd (file_write ?p (take (?n - ?p) bs) (m_data_file r))"
  show ?thesis
  proof (cases "m_data_file_size r < m_data_file_position r + length bs")
    case over: True
    show ?thesis
    proof (cases "next_answer (m_data_file r) = DB_SUCCESS")
      case True
      then have w1: "file_write ?p (take (?n - ?p) bs) (m_data_file r) = (DB_SUCCESS, f1)"
        by (simp add: f1_def file_write_success)
      have "next_answer f1 \<noteq> DB_SUCCESS"
      proof
        assume "next_answer f1 = DB_SUCCESS"
        then have "fst (append_wrapped bs r) = DB_SUCCESS"
          using over
          by (simp add: append_wrapped_def a s w1 flip_sequence_bit_def file_write_success Let_def)
        with failed show False by simp
      qed
      then show ?thesis
        using over pos
        by (simp add: append_wrapped_def a s w1 flip_sequence_bit_def file_write_failure)
    next
      case False
      then show ?thesis
        using over pos by (simp add: append_wrapped_def a s file_write_failure)
    qed
  next
    case fits: False
    have "next_answer (m_data_file r) \<noteq> DB_SUCCESS"
    proof
      assume "next_answer (m_data_file r) = DB_SUCCESS"
      then have "fst (append_wrapped bs r) = DB_SUCCESS"
        using fits by (simp add: append_wrapped_def a file_write_success Let_def)
      with failed show False by simp
    qed
    then show ?thesis
      using fits pos by (simp add: append_wrapped_def a file_write_failure)
  qed
qed

lemma append_wrapped_example:
  "append_wrapped [1, 2, 3] redo_at_6_of_8 =
     (DB_SUCCESS,
      redo_at_6_of_8\<lparr>m_data_file := closed_file\<lparr>file_bytes := [3, 0, 0, 0, 0, 0, 1, 2],
                        io_done := [IO_write 6 [1, 2], IO_write 0 [3]]\<rparr>,
                      m_data_file_position := 1, m_sequence_bit := 0\<rparr>)"
  by (simp add: append_wrapped_def redo_at_6_of_8_def closed_file_def file_write_def
                next_answer_def pwrite_def flip_sequence_bit_def add64_def sub64_def Let_def)

text \<open>Claim C4 at a concrete append that crosses the end of the file.\<close>

theorem append_wrapped_cases_witness:
  "m_data_file_position redo_at_6_of_8 < m_data_file_size redo_at_6_of_8 \<and>
   length [1, 2, 3 :: byte] < m_data_file_size redo_at_6_of_8 \<and>
   m_data_file_size redo_at_6_of_8 \<le> 2 ^ 63 \<and>
   fst (append_wrapped [1, 2, 3] redo_at_6_of_8) = DB_SUCCESS \<and>
   io_done (m_data_file (snd (append_wrapped [1, 2, 3] redo_at_6_of_8))) =
     [IO_write 6 [1, 2], IO_write 0 [3]] \<and>
   m_sequence_bit (snd (append_wrapped [1, 2, 3] redo_at_6_of_8)) = 0 \<and>
   m_data_file_position (snd (append_wrapped [1, 2, 3] redo_at_6_of_8)) = 1"
proof -
  have h1: "m_data_file_position redo_at_6_of_8 < m_data_file_size redo_at_6_of_8"
    by (simp add: redo_at_6_of_8_def)
  have h2: "length [1, 2, 3 :: byte] < m_data_file_size redo_at_6_of_8"
    by (simp add: redo_at_6_of_8_def)
  have h3: "m_data_file_size redo_at_6_of_8 \<le> 2 ^ 63"
    by (simp add: redo_at_6_of_8_def)
  have h4: "fst (append_wrapped [1, 2, 3] redo_at_6_of_8) = DB_SUCCESS"
    by (simp add: append_wrapped_example)
  from append_wrapped_cases [OF h1 h2 h3 h4] h1 h2 h3 h4 show ?thesis
    by (simp add: redo_at_6_of_8_def closed_file_def)
qed

text \<open>Claim C9 at the same append.\<close>

theorem append_wrapped_cursor_below_size_witness:
  "m_data_file_position redo_at_6_of_8 < m_data_file_size redo_at_6_of_8 \<and>
   length [1, 2, 3 :: byte] < m_data_file_size redo_at_6_of_8 \<and>
   m_data_file_size redo_at_6_of_8 \<le> 2 ^ 63 \<and>
   m_data_file_position (snd (append_wrapped [1, 2, 3] redo_at_6_of_8)) <
     m_data_file_size (snd (append_wrapped [1, 2, 3] redo_at_6_of_8))"
proof -
  have h1: "m_data_file_position redo_at_6_of_8 < m_data_file_size redo_at_6_of_8"
    by (simp add: redo_at_6_of_8_def)
  have h2: "length [1, 2, 3 :: byte] < m_data_file_size redo_at_6_of_8"
    by (simp add: redo_at_6_of_8_def)
  have h3: "m_data_file_size redo_at_6_of_8 \<le> 2 ^ 63"
    by (simp add: redo_at_6_of_8_def)
  from append_wrapped_cursor_below_size [OF h1 h2 h3] h1 h2 h3 show ?thesis
    by simp
qed

subsection \<open>Capacity thresholds\<close>

lemma log_set_capacity_success:
  "fst (log_set_capacity fs w) \<longleftrightarrow> checkpoint_free w < (fs - fs div 10) div 2"
  by (simp add: log_set_capacity_def checkpoint_free_def Let_def)

lemma log_set_capacity_result:
  assumes ok: "fst (log_set_capacity fs w)"
  shows "snd (log_set_capacity fs w) =
     w\<lparr>log_sys := (log_sys w)
        \<lparr>log_capacity := fs - fs div 10,
         max_modified_age_async :=
           (fs - fs div 10 - checkpoint_free w - (fs - fs div 10 - checkpoint_free w) div 10) -
           (fs - fs div 10 - checkpoint_free w - (fs - fs div 10 - checkpoint_free w) div 10) div 8,
         max_modified_age_sync :=
           (fs - fs div 10 - checkpoint_free w - (fs - fs div 10 - checkpoint_free w) div 10) -
           (fs - fs div 10 - checkpoint_free w - (fs - fs div 10 - checkpoint_free w) div 10) div 16,
         max_checkpoint_age_async :=
           (fs - fs div 10 - checkpoint_free w - (fs - fs div 10 - checkpoint_free w) div 10) -
           (fs - fs div 10 - checkpoint_free w - (fs - fs div 10 - checkpoint_free w) div 10) div 32,
         max_checkpoint_age :=
           fs - fs div 10 - checkpoint_free w - (fs - fs div 10 - checkpoint_free w) div 10\<rparr>\<rparr>"
proof -
  have "checkpoint_free w < (fs - fs div 10) div 2"
    using ok by (simp add: log_set_capacity_success)
  then have nge: "\<not> (fs - fs div 10) div 2 \<le> checkpoint_free w" by simp
  show ?thesis
    unfolding log_set_capacity_def Let_def LOG_POOL_PREFLUSH_RATIO_ASYNC_def
              LOG_POOL_PREFLUSH_RATIO_SYNC_def LOG_POOL_CHECKPOINT_RATIO_ASYNC_def
    using nge unfolding checkpoint_free_def
    by (simp only: if_False snd_conv)
qed

text \<open>
  Claim C6, as the code has it. After a successful \<^verbatim>\<open>log_set_capacity(file_size)\<close> the
  capacity is the file size less a tenth, and the four thresholds are computed from
  \<open>margin\<close>, which is the capacity less the space reserved for the threads
  (\<open>checkpoint_free\<close>), less a tenth of that difference: \<open>max_modified_age_async\<close> is
  \<open>margin - margin div 8\<close>, \<open>max_modified_age_sync\<close> is \<open>margin - margin div 16\<close>,
  \<open>max_checkpoint_age_async\<close> is \<open>margin - margin div 32\<close> and \<open>max_checkpoint_age\<close> is
  \<open>margin\<close>, with integer division throughout.
\<close>

theorem log_set_capacity_thresholds:
  assumes ok: "fst (log_set_capacity fs w)"
  shows "log_capacity (log_sys (snd (log_set_capacity fs w))) = fs - fs div 10 \<and>
         (let capacity = log_capacity (log_sys (snd (log_set_capacity fs w)));
              margin = capacity - checkpoint_free w - (capacity - checkpoint_free w) div 10
          in max_modified_age_async (log_sys (snd (log_set_capacity fs w))) = margin - margin div 8 \<and>
             max_modified_age_sync (log_sys (snd (log_set_capacity fs w))) = margin - margin div 16 \<and>
             max_checkpoint_age_async (log_sys (snd (log_set_capacity fs w))) = margin - margin div 32 \<and>
             max_checkpoint_age (log_sys (snd (log_set_capacity fs w))) = margin)"
  unfolding log_set_capacity_result [OF ok] Let_def
  by (simp del: diff_diff_left)

lemma example_checkpoint_free: "checkpoint_free example_world = 786432"
  by (simp add: checkpoint_free_def example_world_def LOG_CHECKPOINT_FREE_PER_THREAD_def
                LOG_CHECKPOINT_EXTRA_FREE_def add64_def push_bit_eq_mult)

lemma example_set_capacity:
  "log_set_capacity 4194304 example_world =
     (True, example_world\<lparr>log_sys := example_log_sys
        \<lparr>log_capacity := 3774874, max_modified_age_async := 2353399,
         max_modified_age_sync := 2521499, max_checkpoint_age_async := 2605549,
         max_checkpoint_age := 2689598\<rparr>\<rparr>)"
  by (simp add: log_set_capacity_def example_world_def LOG_CHECKPOINT_FREE_PER_THREAD_def
                LOG_CHECKPOINT_EXTRA_FREE_def add64_def push_bit_eq_mult Let_def
                LOG_POOL_PREFLUSH_RATIO_ASYNC_def
                  LOG_POOL_PREFLUSH_RATIO_SYNC_def LOG_POOL_CHECKPOINT_RATIO_ASYNC_def)

text \<open>Claim C6 at a data file of 4 MiB, 16 KiB pages and no thread limit.\<close>

theorem log_set_capacity_thresholds_witness:
  "fst (log_set_capacity 4194304 example_world) \<and>
   log_capacity (log_sys (snd (log_set_capacity 4194304 example_world))) = 3774874 \<and>
   max_modified_age_async (log_sys (snd (log_set_capacity 4194304 example_world))) = 2353399 \<and>
   max_modified_age_sync (log_sys (snd (log_set_capacity 4194304 example_world))) = 2521499 \<and>
   max_checkpoint_age_async (log_sys (snd (log_set_capacity 4194304 example_world))) = 2605549 \<and>
   max_checkpoint_age (log_sys (snd (log_set_capacity 4194304 example_world))) = 2689598"
proof -
  have h: "fst (log_set_capacity 4194304 example_world)"
    by (simp add: example_set_capacity)
  from log_set_capacity_thresholds [OF h] h show ?thesis
    by (simp add: example_checkpoint_free Let_def)
qed

text \<open>
  Claim C6 as the spec states it fails at the same input: the thresholds are not those
  computed from the capacity less a tenth, and \<open>max_checkpoint_age\<close> is below three
  quarters of the capacity.
\<close>

theorem log_set_capacity_spec_counterexample:
  "fst (log_set_capacity 4194304 example_world) \<and>
   (max_modified_age_async (log_sys (snd (log_set_capacity 4194304 example_world))),
    max_modified_age_sync (log_sys (snd (log_set_capacity 4194304 example_world))),
    max_checkpoint_age_async (log_sys (snd (log_set_capacity 4194304 example_world))),
    max_checkpoint_age (log_sys (snd (log_set_capacity 4194304 example_world))))
     \<noteq> spec_thresholds (log_capacity (log_sys (snd (log_set_capacity 4194304 example_world)))) \<and>
   4 * max_checkpoint_age (log_sys (snd (log_set_capacity 4194304 example_world)))
     < 3 * log_capacity (log_sys (snd (log_set_capacity 4194304 example_world)))"
  by (simp add: example_set_capacity spec_thresholds_def Let_def)

subsection \<open>Writing up to an LSN\<close>

text \<open>
  Claim C10. While \<^verbatim>\<open>recv_no_ibuf_operations\<close> is set, \<^verbatim>\<open>log_write_up_to\<close> returns at once
  for every LSN and both values of \<open>flush_to_disk\<close>, and the whole state is as before: no
  request reaches a file, no field of \<^verbatim>\<open>log_sys\<close> and neither lock changes.
\<close>

theorem log_write_up_to_during_recovery:
  assumes "recv_no_ibuf_operations w"
  shows "log_write_up_to l flush_to_disk w = Inr w"
  using assms by (simp add: log_write_up_to_def)

text \<open>Claim C10 at the server at rest with recovery switched on.\<close>

theorem log_write_up_to_during_recovery_witness:
  "recv_no_ibuf_operations (example_world\<lparr>recv_no_ibuf_operations := True\<rparr>) \<and>
   log_write_up_to 9000 True (example_world\<lparr>recv_no_ibuf_operations := True\<rparr>) =
     Inr (example_world\<lparr>recv_no_ibuf_operations := True\<rparr>)"
proof -
  have h: "recv_no_ibuf_operations (example_world\<lparr>recv_no_ibuf_operations := True\<rparr>)"
    by simp
  from log_write_up_to_during_recovery [OF h] h show ?thesis
    by blast
qed

subsection \<open>The margin check\<close>

lemma margin_over_capacity_call:
  assumes over: "margin > log_capacity (log_sys w)"
  shows "\<exists>w'. log_margin_checkpoint_age margin w = Inr w' \<and>
           log_sys w' = log_sys w \<and> new_redo w' = new_redo w \<and>
           write_lock w' = write_lock w \<and> flush_lock w' = flush_lock w \<and>
           clock w' = clock w \<and>
           (events w' = events w \<or>
            events w' = events w @ [Error_log_too_small margin (log_capacity (log_sys w))]) \<and>
           (events w' \<noteq> events w \<longleftrightarrow>
              \<not> log_has_printed_chkp_margine_warning w \<or>
              clock w (clock_reads w) - log_last_margine_warning_time w > 15) \<and>
           (events w' \<noteq> events w \<longrightarrow>
              log_has_printed_chkp_margine_warning w' \<and>
              log_last_margine_warning_time w' =
                clock w (if log_has_printed_chkp_margine_warning w then Suc (clock_reads w)
                         else clock_reads w)) \<and>
           (events w' = events w \<longrightarrow>
              log_has_printed_chkp_margine_warning w' = log_has_printed_chkp_margine_warning w \<and>
              log_last_margine_warning_time w' = log_last_margine_warning_time w)"
  using over
  by (simp add: log_margin_checkpoint_age_def time_now_def emit_def Let_def)

text \<open>
  Claim C7. A call of \<^verbatim>\<open>log_margin_checkpoint_age(margin)\<close> with \<open>margin\<close> above the log
  capacity returns without abort; \<^verbatim>\<open>log_sys\<close>, the redo files and both locks are as before
  (no checkpoint, no write, no flush), and nothing is added to the events but at most the
  one message naming the margin and the capacity (no sleep). The message is printed
  exactly when none was printed before or the clock is more than 15 seconds past the
  stamp of the last one; printing sets the flag and stamps the time, not printing leaves
  both. Hence of two calls in a row that both print, the second reads the clock more than
  15 seconds after the stamp of the first.
\<close>

theorem log_margin_checkpoint_age_over_capacity:
  assumes over: "margin > log_capacity (log_sys w)"
  shows "\<exists>w'. log_margin_checkpoint_age margin w = Inr w' \<and>
           log_sys w' = log_sys w \<and> new_redo w' = new_redo w \<and>
           write_lock w' = write_lock w \<and> flush_lock w' = flush_lock w \<and>
           (events w' = events w \<or>
            events w' = events w @ [Error_log_too_small margin (log_capacity (log_sys w))]) \<and>
           (events w' \<noteq> events w \<longleftrightarrow>
              \<not> log_has_printed_chkp_margine_warning w \<or>
              clock w (clock_reads w) - log_last_margine_warning_time w > 15) \<and>
           (events w' \<noteq> events w \<longrightarrow>
              log_has_printed_chkp_margine_warning w' \<and>
              log_last_margine_warning_time w' =
                clock w (if log_has_printed_chkp_margine_warning w then Suc (clock_reads w)
                         else clock_reads w)) \<and>
           (events w' = events w \<longrightarrow>
              log_has_printed_chkp_margine_warning w' = log_has_printed_chkp_margine_warning w \<and>
              log_last_margine_warning_time w' = log_last_margine_warning_time w) \<and>
           (\<forall>margin2 w2.
              margin2 > log_capacity (log_sys w') \<and>
              log_margin_checkpoint_age margin2 w' = Inr w2 \<and>
              events w' \<noteq> events w \<and> events w2 \<noteq> events w' \<longrightarrow>
              clock w' (clock_reads w') - log_last_margine_warning_time w' > 15)"
proof -
  from margin_over_capacity_call [OF over] obtain w' where
    r: "log_margin_checkpoint_age margin w = Inr w'" and
    rest: "log_sys w' = log_sys w \<and> new_redo w' = new_redo w \<and>
           write_lock w' = write_lock w \<and> flush_lock w' = flush_lock w \<and>
           clock w' = clock w \<and>
           (events w' = events w \<or>
            events w' = events w @ [Error_log_too_small margin (log_capacity (log_sys w))]) \<and>
           (events w' \<noteq> events w \<longleftrightarrow>
              \<not> log_has_printed_chkp_margine_warning w \<or>
              clock w (clock_reads w) - log_last_margine_warning_time w > 15) \<and>
           (events w' \<noteq> events w \<longrightarrow>
              log_has_printed_chkp_margine_warning w' \<and>
              log_last_margine_warning_time w' =
                clock w (if log_has_printed_chkp_margine_warning w then Suc (clock_reads w)
                         else clock_reads w)) \<and>
           (events w' = events w \<longrightarrow>
              log_has_printed_chkp_margine_warning w' = log_has_printed_chkp_margine_warning w \<and>
              log_last_margine_warning_time w' = log_last_margine_warning_time w)"
    by blast
  have two: "clock w' (clock_reads w') - log_last_margine_warning_time w' > 15"
    if m2: "margin2 > log_capacity (log_sys w')"
    and r2: "log_margin_checkpoint_age margin2 w' = Inr w2"
    and e1: "events w' \<noteq> events w" and e2: "events w2 \<noteq> events w'" for margin2 w2
  proof -
    have printed: "log_has_printed_chkp_margine_warning w'"
      using rest e1 by blast
    from margin_over_capacity_call [OF m2] r2 e2 printed show ?thesis
      by auto
  qed
  show ?thesis
    using r rest two by blast
qed

text \<open>Claim C7 at the server at rest, whose capacity is not yet set.\<close>

theorem log_margin_checkpoint_age_over_capacity_witness:
  "1 > log_capacity (log_sys example_world) \<and>
   (\<exists>w'. log_margin_checkpoint_age 1 example_world = Inr w' \<and>
         log_sys w' = log_sys example_world \<and>
         events w' = [Error_log_too_small 1 0] \<and>
         log_has_printed_chkp_margine_warning w' \<and>
         log_last_margine_warning_time w' = 1000)"
proof -
  have h: "1 > log_capacity (log_sys example_world)"
    by (simp add: example_world_def example_log_sys_def)
  from log_margin_checkpoint_age_over_capacity [OF h] obtain w' where
    r: "log_margin_checkpoint_age 1 example_world = Inr w'" and
    f: "log_sys w' = log_sys example_world" and
    e: "events w' = events example_world \<or>
        events w' = events example_world @
          [Error_log_too_small 1 (log_capacity (log_sys example_world))]" and
    c: "events w' \<noteq> events example_world \<longleftrightarrow>
          \<not> log_has_printed_chkp_margine_warning example_world \<or>
          clock example_world (clock_reads example_world)
            - log_last_margine_warning_time example_world > 15" and
    p: "events w' \<noteq> events example_world \<longrightarrow>
          log_has_printed_chkp_margine_warning w' \<and>
          log_last_margine_warning_time w' =
            clock example_world
              (if log_has_printed_chkp_margine_warning example_world
               then Suc (clock_reads example_world) else clock_reads example_world)"
    by blast
  have ne: "events w' \<noteq> events example_world"
    using c by (simp add: example_world_def)
  show ?thesis
    using h r f e p ne
    by (auto simp: example_world_def example_log_sys_def)
qed

subsection \<open>Writing up to an LSN: the postcondition\<close>

lemma write_frame_refl: "write_frame w w"
  by (simp add: write_frame_def)

lemma write_frame_trans: "write_frame a b \<Longrightarrow> write_frame b c \<Longrightarrow> write_frame a c"
  by (simp add: write_frame_def)

lemma and_then_Inr:
  "and_then r f = Inr y \<longleftrightarrow> (\<exists>x. r = Inr x \<and> f x = Inr y)"
  by (cases r) (simp_all add: and_then_def)

lemma data_write_Inr:
  "data_write offset bs f = Inr f' \<Longrightarrow>
   \<exists>d. f' = f\<lparr>data_fd := d\<rparr> \<and> m_durable_writes d = m_durable_writes (data_fd f)"
  by (auto simp: data_write_def Let_def file_write_def split: if_splits)

lemma log_write_buf_loop_frame:
  "log_write_buf_loop b len sl w = Inr w' \<Longrightarrow> write_frame w w'"
proof (induction b len sl w rule: log_write_buf_loop.induct)
  case (1 b len sl w)
  show ?case
  proof (cases "len = 0")
    case True
    with "1.prems" show ?thesis by (simp add: write_frame_refl)
  next
    case nz: False
    show ?thesis
    proof (cases "file_size (log (log_sys w)) = 0")
      case True
      with "1.prems" nz show ?thesis by simp
    next
      case fs: False
      define fsize where "fsize = file_size (log (log_sys w))"
      define next_offset where "next_offset = calc_lsn_offset sl (log (log_sys w))"
      define write_len where "write_len = (if add64 (next_offset mod fsize) len > fsize
                         then fsize - next_offset mod fsize else len)"
      define mem where "mem = fold (\<lambda>i m. log_block_store_checksum m (b + i * OS_FILE_LOG_BLOCK_SIZE))
                       [0 ..< write_len div OS_FILE_LOG_BLOCK_SIZE] (buf_mem (log_sys w))"
      define ls where "ls = (log_sys w)\<lparr>buf_mem := mem, n_log_ios := add64 (n_log_ios (log_sys w)) 1\<rparr>"
      define r where "r = data_write next_offset (mem_read mem b write_len) (log ls)"
      note defs = fsize_def next_offset_def write_len_def mem_def ls_def r_def
      have eq: "log_write_buf_loop b len sl w =
                  (case r of
                     Inl a \<Rightarrow> Inl a
                   | Inr f \<Rightarrow>
                       if write_len < len
                       then log_write_buf_loop (b + write_len) (len - write_len)
                              (add64 sl write_len) (w\<lparr>log_sys := ls\<lparr>log := f\<rparr>\<rparr>)
                       else Inr (w\<lparr>log_sys := ls\<lparr>log := f\<rparr>\<rparr>))"
        by (subst log_write_buf_loop.simps) (simp only: nz fs if_False Let_def defs)
      from "1.prems" obtain f where rf: "r = Inr f"
        unfolding eq by (cases r) simp_all
      have step: "write_frame w (w\<lparr>log_sys := ls\<lparr>log := f\<rparr>\<rparr>)"
        using data_write_Inr [OF rf [unfolded r_def]]
        by (auto simp: write_frame_def ls_def data_writes_are_durable_def writes_are_durable_def)
      show ?thesis
      proof (cases "write_len < len")
        case True
        from "1.prems" rf True
        have rec: "log_write_buf_loop (b + write_len) (len - write_len) (add64 sl write_len)
                     (w\<lparr>log_sys := ls\<lparr>log := f\<rparr>\<rparr>) = Inr w'"
          unfolding eq by simp
        have "write_frame (w\<lparr>log_sys := ls\<lparr>log := f\<rparr>\<rparr>) w'"
          by (rule "1.IH" [OF nz fs fsize_def next_offset_def write_len_def mem_def ls_def r_def
                           rf True rec])
        with step show ?thesis by (rule write_frame_trans)
      next
        case False
        from "1.prems" rf False
        have "w' = w\<lparr>log_sys := ls\<lparr>log := f\<rparr>\<rparr>"
          unfolding eq by simp
        with step show ?thesis by simp
      qed
    qed
  qed
qed

declare log_write_buf_loop.simps [simp del]

declare log_write_low.simps [simp del]

lemma log_write_buf_frame:
  "log_write_buf b len sl off w = Inr w' \<Longrightarrow> write_frame w w'"
  by (simp add: log_write_buf_def split: if_splits) (erule log_write_buf_loop_frame)

lemma log_buffer_switch_frame: "write_frame w (log_buffer_switch w)"
  by (simp add: write_frame_def log_buffer_switch_def Let_def)

lemma log_write_nothing:
  "buf_free (log_sys w) = buf_next_to_write (log_sys w) \<Longrightarrow> log_write w = Inr w"
  by (simp add: log_write_def)

lemma switched_frame: "write_frame w (switched w mem)"
proof -
  have "write_frame w (w\<lparr>log_sys := (log_sys w)\<lparr>buf_mem := mem\<rparr>\<rparr>)"
    by (simp add: write_frame_def)
  then have "write_frame w (log_buffer_switch (w\<lparr>log_sys := (log_sys w)\<lparr>buf_mem := mem\<rparr>\<rparr>))"
    by (rule write_frame_trans [OF _ log_buffer_switch_frame])
  then show ?thesis
    by (simp add: switched_def Let_def write_frame_def set_fields_def data_writes_are_durable_def)
qed

lemma log_write_shape:
  assumes ne: "buf_free (log_sys w) \<noteq> buf_next_to_write (log_sys w)"
      and fs: "file_size (log (log_sys w)) \<noteq> 0"
  shows "\<exists>mem1 mem a b c d.
           log_write w =
             and_then
               (log_write_buf a b c d
                  ((switched w mem1)\<lparr>log_sys := (log_sys (switched w mem1))\<lparr>buf_mem := mem\<rparr>\<rparr>))
               (\<lambda>x. Inr (x\<lparr>log_sys := (log_sys x)
                     \<lparr>write_lsn := lsn (log_sys w),
                      flushed_to_disk_lsn :=
                        (if data_writes_are_durable (log (log_sys x)) then lsn (log_sys w)
                         else flushed_to_disk_lsn (log_sys x))\<rparr>\<rparr>))"
  unfolding log_write_def switched_def Let_def
  apply (simp only: ne fs if_False)
  apply (intro exI)
  apply (rule refl)
  done

lemma log_write_written:
  assumes r: "log_write w = Inr w'"
      and ne: "buf_free (log_sys w) \<noteq> buf_next_to_write (log_sys w)"
  shows "\<exists>x. write_frame w x \<and>
              w' = x\<lparr>log_sys := (log_sys x)
                     \<lparr>write_lsn := lsn (log_sys w),
                      flushed_to_disk_lsn :=
                        (if data_writes_are_durable (log (log_sys w)) then lsn (log_sys w)
                         else flushed_to_disk_lsn (log_sys w))\<rparr>\<rparr>"
proof -
  have fs: "file_size (log (log_sys w)) \<noteq> 0"
  proof
    assume "file_size (log (log_sys w)) = 0"
    with ne have "log_write w = Inl Division_by_zero"
      by (simp add: log_write_def)
    with r show False by simp
  qed
  from log_write_shape [OF ne fs] obtain mem1 mem a b c d where
    eq: "log_write w =
             and_then
               (log_write_buf a b c d
                  ((switched w mem1)\<lparr>log_sys := (log_sys (switched w mem1))\<lparr>buf_mem := mem\<rparr>\<rparr>))
               (\<lambda>x. Inr (x\<lparr>log_sys := (log_sys x)
                     \<lparr>write_lsn := lsn (log_sys w),
                      flushed_to_disk_lsn :=
                        (if data_writes_are_durable (log (log_sys x)) then lsn (log_sys w)
                         else flushed_to_disk_lsn (log_sys x))\<rparr>\<rparr>))"
    by blast
  from r [unfolded eq and_then_Inr] obtain x where
    wb: "log_write_buf a b c d
           ((switched w mem1)\<lparr>log_sys := (log_sys (switched w mem1))\<lparr>buf_mem := mem\<rparr>\<rparr>) = Inr x" and
    w': "w' = x\<lparr>log_sys := (log_sys x)
                     \<lparr>write_lsn := lsn (log_sys w),
                      flushed_to_disk_lsn :=
                        (if data_writes_are_durable (log (log_sys x)) then lsn (log_sys w)
                         else flushed_to_disk_lsn (log_sys x))\<rparr>\<rparr>"
    by auto
  have f3: "write_frame (switched w mem1)
              ((switched w mem1)\<lparr>log_sys := (log_sys (switched w mem1))\<lparr>buf_mem := mem\<rparr>\<rparr>)"
    by (simp add: write_frame_def)
  have fx: "write_frame w x"
    using switched_frame [of w mem1] f3 log_write_buf_frame [OF wb]
    by (blast intro: write_frame_trans)
  then show ?thesis
    using w' by (auto simp: write_frame_def)
qed

lemma log_write_up_to_waves:
  "log_write_up_to l flush_to_disk w =
     (if recv_no_ibuf_operations w then Inr w
      else if flush_to_disk \<and> acquire l (flush_lock w) \<noteq> ACQUIRED then Inr w
      else and_then (write_wave l w) (\<lambda>w. if \<not> flush_to_disk then Inr w else flush_wave w))"
  unfolding log_write_up_to_def write_wave_def flush_wave_def by (rule refl)

lemma write_wave_covered:
  "acquire l (write_lock w) \<noteq> ACQUIRED \<Longrightarrow> write_wave l w = Inr w"
  by (simp add: write_wave_def)

lemma write_wave_acquired:
  assumes acq: "acquire l (write_lock w) = ACQUIRED"
      and r: "write_wave l w = Inr w'"
  shows "m_value (write_lock w') = lsn (log_sys w) \<and>
         write_lsn (log_sys w') = lsn (log_sys w) \<and>
         lsn (log_sys w') = lsn (log_sys w) \<and>
         flush_lock w' = flush_lock w \<and>
         data_writes_are_durable (log (log_sys w')) = data_writes_are_durable (log (log_sys w)) \<and>
         (if buf_free (log_sys w) = buf_next_to_write (log_sys w)
          then flushed_to_disk_lsn (log_sys w') = flushed_to_disk_lsn (log_sys w) \<and>
               write_lsn (log_sys w) = lsn (log_sys w)
          else flushed_to_disk_lsn (log_sys w') =
                 (if data_writes_are_durable (log (log_sys w)) then lsn (log_sys w)
                  else flushed_to_disk_lsn (log_sys w)))"
proof -
  define w0 where "w0 = w\<lparr>write_lock := set_pending (lsn (log_sys w)) (write_lock w)\<rparr>"
  have f0: "write_frame w (w0\<lparr>write_lock := write_lock w\<rparr>)" "log_sys w0 = log_sys w"
           "flush_lock w0 = flush_lock w"
    by (simp_all add: w0_def write_frame_def)
  from r acq obtain x where
    lw: "log_write w0 = Inr x" and
    a: "write_lsn (log_sys x) = lsn (log_sys w)" and
    w': "w' = x\<lparr>write_lock := release (lsn (log_sys w)) (write_lock x)\<rparr>"
    by (auto simp: write_wave_def Let_def and_then_Inr w0_def split: if_splits)
  show ?thesis
  proof (cases "buf_free (log_sys w) = buf_next_to_write (log_sys w)")
    case True
    then have "log_write w0 = Inr w0"
      using f0 by (simp add: log_write_nothing)
    with lw have "x = w0" by simp
    then show ?thesis
      using True a w' by (simp add: w0_def release_def)
  next
    case False
    then have ne: "buf_free (log_sys w0) \<noteq> buf_next_to_write (log_sys w0)"
      using f0 by simp
    from log_write_written [OF lw ne] obtain y where
      fr: "write_frame w0 y" and
      x: "x = y\<lparr>log_sys := (log_sys y)
                     \<lparr>write_lsn := lsn (log_sys w0),
                      flushed_to_disk_lsn :=
                        (if data_writes_are_durable (log (log_sys w0)) then lsn (log_sys w0)
                         else flushed_to_disk_lsn (log_sys w0))\<rparr>\<rparr>"
      by blast
    show ?thesis
      using False fr f0 unfolding w' x
      by (simp add: write_frame_def release_def data_writes_are_durable_def)
  qed
qed

lemma flush_wave_result:
  assumes r: "flush_wave w = Inr w'"
  shows "m_value (flush_lock w') = m_value (write_lock w) \<and>
         write_lock w' = write_lock w \<and>
         lsn (log_sys w') = lsn (log_sys w) \<and>
         write_lsn (log_sys w') = write_lsn (log_sys w) \<and>
         data_writes_are_durable (log (log_sys w')) = data_writes_are_durable (log (log_sys w)) \<and>
         flushed_to_disk_lsn (log_sys w') =
           (if data_writes_are_durable (log (log_sys w)) then flushed_to_disk_lsn (log_sys w)
            else m_value (write_lock w))"
  using r
  by (auto simp: flush_wave_def Let_def and_then_Inr log_write_flush_to_disk_low_def
                 data_flush_data_only_def emit_def release_def set_pending_def
                 data_writes_are_durable_def writes_are_durable_def file_flush_data_only_def
           split: if_splits)

lemma acquire_cases:
  "acquire l lk = ACQUIRED \<longleftrightarrow> m_value lk < l"
  "acquire l lk \<noteq> ACQUIRED \<longleftrightarrow> l \<le> m_value lk"
  by (auto simp: acquire_def)

text \<open>
  Claim C1, as the code has it. Outside recovery, for an LSN \<open>l\<close> that the log has reached
  (\<open>l \<le> log_sys.lsn\<close>), in a state in which the log and its locks agree
  (\<open>locks_consistent\<close>), a return of \<^verbatim>\<open>log_write_up_to(l, true)\<close> leaves
  \<open>flushed_to_disk_lsn \<ge> l\<close>, whether the caller owned the write and flush waves or was
  covered, and the log and its locks still agree.
\<close>

theorem log_write_up_to_flushed:
  assumes ret: "log_write_up_to l True w = Inr w'"
      and run: "\<not> recv_no_ibuf_operations w"
      and le: "l \<le> lsn (log_sys w)"
      and cons: "locks_consistent w"
  shows "l \<le> flushed_to_disk_lsn (log_sys w') \<and> locks_consistent w'"
proof (cases "acquire l (flush_lock w) = ACQUIRED")
  case False
  then have "w' = w"
    using ret run by (simp add: log_write_up_to_waves)
  moreover have "l \<le> m_value (flush_lock w)"
    using False by (simp add: acquire_cases)
  ultimately show ?thesis
    using cons by (auto simp: locks_consistent_def)
next
  case True
  from ret run True obtain w3 where
    ww: "write_wave l w = Inr w3" and fw: "flush_wave w3 = Inr w'"
    by (auto simp: log_write_up_to_waves and_then_Inr)
  note fl = flush_wave_result [OF fw]
  show ?thesis
  proof (cases "acquire l (write_lock w) = ACQUIRED")
    case covered: False
    then have w3: "w3 = w"
      using ww by (simp add: write_wave_covered)
    have "l \<le> m_value (write_lock w)"
      using covered by (simp add: acquire_cases)
    then show ?thesis
      using fl cons unfolding w3 by (auto simp: locks_consistent_def)
  next
    case owner: True
    note wr = write_wave_acquired [OF owner ww]
    show ?thesis
    proof (cases "buf_free (log_sys w) = buf_next_to_write (log_sys w)")
      case True
      then show ?thesis
        using wr fl cons le by (auto simp: locks_consistent_def)
    next
      case False
      then show ?thesis
        using wr fl cons le by (auto simp: locks_consistent_def)
    qed
  qed
qed

text \<open>The agreement of log and locks is kept by a call without flush as well.\<close>

lemma log_write_up_to_keeps_consistent:
  assumes ret: "log_write_up_to l False w = Inr w'"
      and cons: "locks_consistent w"
  shows "locks_consistent w'"
proof (cases "recv_no_ibuf_operations w")
  case True
  then show ?thesis using ret cons by (simp add: log_write_up_to_waves)
next
  case run: False
  from ret run have ww: "write_wave l w = Inr w'"
    by (auto simp: log_write_up_to_waves and_then_Inr)
  show ?thesis
  proof (cases "acquire l (write_lock w) = ACQUIRED")
    case False
    then show ?thesis using ww cons by (simp add: write_wave_covered)
  next
    case owner: True
    note wr = write_wave_acquired [OF owner ww]
    show ?thesis
    proof (cases "buf_free (log_sys w) = buf_next_to_write (log_sys w)")
      case True
      then show ?thesis
        using wr cons by (auto simp: locks_consistent_def)
    next
      case False
      then show ?thesis
        using wr cons by (auto simp: locks_consistent_def)
    qed
  qed
qed

lemmas example_defs =
  example_world_def example_log_sys_def example_log_file_def closed_file_def redo_at_6_of_8_def

lemmas run_defs =
  acquire_def set_pending_def release_def and_then_def emit_def
  log_write_flush_to_disk_low_def data_flush_data_only_def file_flush_data_only_def
  file_write_def next_answer_def flush_data_def data_writes_are_durable_def
  writes_are_durable_def add64_def sub64_def Let_def

lemma example_world_up_to_9000:
  "log_write_up_to 9000 True example_world =
     Inr (example_world
       \<lparr>log_sys := example_log_sys
          \<lparr>log := example_log_file\<lparr>data_fd := closed_file\<lparr>io_done := [IO_flush]\<rparr>\<rparr>,
           flushes := 1\<rparr>,
        new_redo := redo_at_6_of_8
          \<lparr>m_data_file := closed_file\<lparr>file_bytes := [0, 0, 0, 0, 0, 0, 0, 0],
                                       io_done := [IO_flush]\<rparr>\<rparr>,
        events := [Innobase_mysql_log_notify 8204]\<rparr>)"
  by (simp add: log_write_up_to_def log_write_def example_defs run_defs)

lemma example_unflushed_up_to_8204:
  "log_write_up_to 8204 True example_unflushed =
     Inr (example_world
       \<lparr>log_sys := example_log_sys
          \<lparr>log := example_log_file\<lparr>data_fd := closed_file\<lparr>io_done := [IO_flush]\<rparr>\<rparr>,
           flushes := 1\<rparr>,
        new_redo := redo_at_6_of_8
          \<lparr>m_data_file := closed_file\<lparr>file_bytes := [0, 0, 0, 0, 0, 0, 0, 0],
                                       io_done := [IO_flush]\<rparr>\<rparr>,
        events := [Innobase_mysql_log_notify 8204]\<rparr>)"
  by (simp add: log_write_up_to_def log_write_def example_unflushed_def example_defs run_defs)

text \<open>
  Claim C1 at a state written up to LSN 8204 and flushed up to 8000: the caller is covered
  by the write lock, owns the flush wave, and returns with 8204 flushed.
\<close>

theorem log_write_up_to_flushed_witness:
  "log_write_up_to 8204 True example_unflushed =
     Inr (example_world
       \<lparr>log_sys := example_log_sys
          \<lparr>log := example_log_file\<lparr>data_fd := closed_file\<lparr>io_done := [IO_flush]\<rparr>\<rparr>,
           flushes := 1\<rparr>,
        new_redo := redo_at_6_of_8
          \<lparr>m_data_file := closed_file\<lparr>file_bytes := [0, 0, 0, 0, 0, 0, 0, 0],
                                       io_done := [IO_flush]\<rparr>\<rparr>,
        events := [Innobase_mysql_log_notify 8204]\<rparr>) \<and>
   \<not> recv_no_ibuf_operations example_unflushed \<and>
   8204 \<le> lsn (log_sys example_unflushed) \<and>
   locks_consistent example_unflushed \<and>
   flushed_to_disk_lsn (log_sys example_unflushed) = 8000 \<and>
   8204 \<le> flushed_to_disk_lsn (log_sys (example_world
       \<lparr>log_sys := example_log_sys
          \<lparr>log := example_log_file\<lparr>data_fd := closed_file\<lparr>io_done := [IO_flush]\<rparr>\<rparr>,
           flushes := 1\<rparr>,
        new_redo := redo_at_6_of_8
          \<lparr>m_data_file := closed_file\<lparr>file_bytes := [0, 0, 0, 0, 0, 0, 0, 0],
                                       io_done := [IO_flush]\<rparr>\<rparr>,
        events := [Innobase_mysql_log_notify 8204]\<rparr>))"
proof -
  have h2: "\<not> recv_no_ibuf_operations example_unflushed"
    by (simp add: example_unflushed_def example_defs)
  have h3: "8204 \<le> lsn (log_sys example_unflushed)"
    by (simp add: example_unflushed_def example_defs)
  have h4: "locks_consistent example_unflushed"
    by (simp add: locks_consistent_def example_unflushed_def example_defs run_defs)
  have h5: "flushed_to_disk_lsn (log_sys example_unflushed) = 8000"
    by (simp add: example_unflushed_def example_defs)
  from log_write_up_to_flushed [OF example_unflushed_up_to_8204 h2 h3 h4]
       example_unflushed_up_to_8204 h2 h3 h4 h5
  show ?thesis by blast
qed

text \<open>
  Claim C1 as the spec states it, for every LSN, fails twice: during recovery the call
  returns with the LSN 8304 unflushed; and at rest at LSN 8204 a call for LSN 9000
  returns with \<open>flushed_to_disk_lsn\<close> 8204.
\<close>

theorem log_write_up_to_flushed_counterexample:
  "\<not> isl (log_write_up_to 8304 True (example_appended\<lparr>recv_no_ibuf_operations := True\<rparr>)) \<and>
   flushed_to_disk_lsn (log_sys (projr
     (log_write_up_to 8304 True (example_appended\<lparr>recv_no_ibuf_operations := True\<rparr>)))) < 8304 \<and>
   \<not> isl (log_write_up_to 9000 True example_world) \<and>
   flushed_to_disk_lsn (log_sys (projr (log_write_up_to 9000 True example_world))) < 9000"
  by (simp add: example_world_up_to_9000 example_log_sys_def)
     (simp add: log_write_up_to_def example_appended_def example_defs)

subsection \<open>Checkpoints\<close>

lemma write_wave_checkpoint_frame:
  assumes r: "write_wave l w = Inr w'"
  shows "checkpoint_frame w w'"
proof (cases "acquire l (write_lock w) = ACQUIRED")
  case False
  then show ?thesis using r by (simp add: write_wave_covered checkpoint_frame_def)
next
  case True
  define w0 where "w0 = w\<lparr>write_lock := set_pending (lsn (log_sys w)) (write_lock w)\<rparr>"
  from r True obtain x where
    lw: "log_write w0 = Inr x" and
    w': "w' = x\<lparr>write_lock := release (lsn (log_sys w)) (write_lock x)\<rparr>"
    by (auto simp: write_wave_def Let_def and_then_Inr w0_def split: if_splits)
  have "checkpoint_frame w0 x"
  proof (cases "buf_free (log_sys w0) = buf_next_to_write (log_sys w0)")
    case True
    then have "log_write w0 = Inr w0" by (rule log_write_nothing)
    with lw show ?thesis by (simp add: checkpoint_frame_def)
  next
    case False
    from log_write_written [OF lw False] show ?thesis
      by (auto simp: write_frame_def checkpoint_frame_def)
  qed
  then show ?thesis
    unfolding w' by (simp add: checkpoint_frame_def w0_def)
qed

lemma flush_wave_checkpoint_frame:
  assumes r: "flush_wave w = Inr w'"
  shows "checkpoint_frame w w'"
  using r
  by (auto simp: flush_wave_def Let_def and_then_Inr log_write_flush_to_disk_low_def
                 data_flush_data_only_def emit_def release_def set_pending_def
                 flush_data_def checkpoint_frame_def
           split: if_splits)

lemma log_write_up_to_checkpoint_frame:
  assumes r: "log_write_up_to l flush_to_disk w = Inr w'"
  shows "checkpoint_frame w w'"
proof -
  have refl: "checkpoint_frame w w" by (simp add: checkpoint_frame_def)
  have trans: "checkpoint_frame a c" if "checkpoint_frame a b" "checkpoint_frame b c" for a b c
    using that by (simp add: checkpoint_frame_def)
  show ?thesis
    using r refl
    by (auto simp: log_write_up_to_waves and_then_Inr split: if_splits
             dest!: write_wave_checkpoint_frame flush_wave_checkpoint_frame intro: trans)
qed

lemma checkpoint_prepared_same:
  "log_sys (checkpoint_prepared w) = log_sys w"
  "new_redo (checkpoint_prepared w) = new_redo w"
  "buf_pool_oldest_modification (checkpoint_prepared w) = buf_pool_oldest_modification w"
  "log_buf_pool_get_oldest_modification (checkpoint_prepared w) =
     log_buf_pool_get_oldest_modification w"
  by (simp_all add: checkpoint_prepared_def emit_def Let_def
                    log_buf_pool_get_oldest_modification_def)

lemma log_checkpoint_unfold:
  "log_checkpoint w =
     (if log_buf_pool_get_oldest_modification w = last_checkpoint_lsn (log_sys w)
      then Inr (True, checkpoint_prepared w)
      else
        and_then
          (log_write_up_to (log_buf_pool_get_oldest_modification w) True (checkpoint_prepared w))
          (checkpoint_finish (log_buf_pool_get_oldest_modification w)))"
proof -
  have step1: "log_checkpoint w =
     (let w2 = checkpoint_prepared w;
          flush_lsn = log_buf_pool_get_oldest_modification w2;
          success = (flush_lsn = last_checkpoint_lsn (log_sys w2))
      in if success then Inr (success, w2)
         else
           and_then (log_write_up_to flush_lsn True w2) (\<lambda>w.
             let success = (last_checkpoint_lsn (log_sys w) = flush_lsn)
             in if success \<or> n_pending_checkpoint_writes (log_sys w) \<noteq> 0 then Inr (success, w)
                else
                  let w = w\<lparr>log_sys := (log_sys w)
                            \<lparr>next_checkpoint_lsn := flush_lsn,
                             n_pending_checkpoint_writes :=
                               add64 (n_pending_checkpoint_writes (log_sys w)) 1\<rparr>\<rparr>;
                      w = w\<lparr>new_redo := snd (append_checkpoint_durable flush_lsn (new_redo w))\<rparr>;
                      ls = log_sys w;
                      ls = ls\<lparr>n_pending_checkpoint_writes :=
                                sub64 (n_pending_checkpoint_writes ls) 1\<rparr>;
                      ls = ls\<lparr>n_log_ios := add64 (n_log_ios ls) 1\<rparr>;
                      ls = ls\<lparr>last_checkpoint_lsn := next_checkpoint_lsn ls\<rparr>
                  in Inr (True, w\<lparr>log_sys := ls\<rparr>)))"
    unfolding log_checkpoint_def checkpoint_prepared_def Let_def by (rule refl)
  show ?thesis
    by (subst step1)
       (auto simp: Let_def checkpoint_prepared_same checkpoint_finish_def
             intro!: arg_cong2 [of _ _ _ _ and_then])
qed

lemma log_checkpoint_progress:
  assumes ret: "log_checkpoint w = Inr (success, w')"
      and progress: "log_buf_pool_get_oldest_modification w \<noteq> last_checkpoint_lsn (log_sys w)"
  shows "\<exists>w3. checkpoint_frame w w3 \<and>
              checkpoint_finish (log_buf_pool_get_oldest_modification w) w3 = Inr (success, w')"
proof -
  from ret progress
  have "and_then
          (log_write_up_to (log_buf_pool_get_oldest_modification w) True (checkpoint_prepared w))
          (checkpoint_finish (log_buf_pool_get_oldest_modification w)) = Inr (success, w')"
    by (simp add: log_checkpoint_unfold)
  then obtain w3 where
    up: "log_write_up_to (log_buf_pool_get_oldest_modification w) True (checkpoint_prepared w)
           = Inr w3" and
    fin: "checkpoint_finish (log_buf_pool_get_oldest_modification w) w3 = Inr (success, w')"
    unfolding and_then_Inr by blast
  have "checkpoint_frame w w3"
    using log_write_up_to_checkpoint_frame [OF up]
    by (simp add: checkpoint_frame_def checkpoint_prepared_same)
  with fin show ?thesis by blast
qed

lemma append_checkpoint_durable_impl_record:
  "append_checkpoint_durable_impl file tail l off sb =
     (let r = file_write tail (checkpoint_record l off sb) file
      in if fst r \<noteq> DB_SUCCESS then r
         else if \<not> writes_are_durable (snd r)
         then (let r' = file_flush_data_only (snd r)
               in if fst r' \<noteq> DB_SUCCESS then r' else (DB_SUCCESS, snd r'))
         else (DB_SUCCESS, snd r))"
  unfolding append_checkpoint_durable_impl_def checkpoint_record_def Let_def by (rule refl)

lemma append_checkpoint_durable_requests:
  assumes "io_answers (m_main_file r) = []"
  shows "io_done (m_main_file (snd (append_checkpoint_durable l r))) =
           io_done (m_main_file r) @
             IO_write (m_main_file_size r)
               (checkpoint_record l (m_data_file_position r) (m_sequence_bit r)) #
             (if m_durable_writes (m_main_file r) then [] else [IO_flush])"
  using assms
  by (simp add: append_checkpoint_durable_def append_checkpoint_durable_impl_record Let_def
                file_write_def file_flush_data_only_def next_answer_def writes_are_durable_def)

text \<open>
  Claim C2, as the code has it. When \<^verbatim>\<open>log_checkpoint\<close> returns from a state in which the
  selected LSN differs from the last checkpoint and no checkpoint write is pending, it has
  written a checkpoint and returns true; the LSN it selected and publishes as
  \<open>last_checkpoint_lsn\<close> is the oldest modification of the buffer pool, or \<open>log_sys.lsn\<close>
  when no page is dirty (not the larger of the two); and, the main file answering with
  success, the checkpoint record of that LSN is written at the end of the main file.
\<close>

theorem log_checkpoint_selects_oldest:
  assumes ret: "log_checkpoint w = Inr (success, w')"
      and progress: "log_buf_pool_get_oldest_modification w \<noteq> last_checkpoint_lsn (log_sys w)"
      and alone: "n_pending_checkpoint_writes (log_sys w) = 0"
  shows "success \<and>
         last_checkpoint_lsn (log_sys w') =
           (if buf_pool_oldest_modification w = 0 then lsn (log_sys w)
            else buf_pool_oldest_modification w) \<and>
         next_checkpoint_lsn (log_sys w') = last_checkpoint_lsn (log_sys w') \<and>
         n_pending_checkpoint_writes (log_sys w') = 0 \<and>
         (io_answers (m_main_file (new_redo w)) = [] \<longrightarrow>
            io_done (m_main_file (new_redo w')) =
              io_done (m_main_file (new_redo w)) @
                IO_write (m_main_file_size (new_redo w))
                  (checkpoint_record (last_checkpoint_lsn (log_sys w'))
                     (m_data_file_position (new_redo w)) (m_sequence_bit (new_redo w))) #
                (if m_durable_writes (m_main_file (new_redo w)) then [] else [IO_flush]))"
proof -
  let ?fl = "log_buf_pool_get_oldest_modification w"
  have fl: "?fl = (if buf_pool_oldest_modification w = 0 then lsn (log_sys w)
                   else buf_pool_oldest_modification w)"
    by (simp add: log_buf_pool_get_oldest_modification_def Let_def)
  from log_checkpoint_progress [OF ret progress] obtain w3 where
    fr: "checkpoint_frame w w3" and fin: "checkpoint_finish ?fl w3 = Inr (success, w')"
    by blast
  have one: "sub64 (add64 0 1) 1 = 0" "sub64 (add64 0 (Suc 0)) (Suc 0) = 0"
    by (simp_all add: add64_small sub64_small)
  have same: "last_checkpoint_lsn (log_sys w3) \<noteq> ?fl"
             "n_pending_checkpoint_writes (log_sys w3) = 0"
    using fr progress alone by (simp_all add: checkpoint_frame_def)
  have w': "success \<and> w' =
               w3\<lparr>new_redo := snd (append_checkpoint_durable ?fl (new_redo w3)),
                   log_sys := (log_sys w3)
                     \<lparr>next_checkpoint_lsn := ?fl,
                      n_pending_checkpoint_writes := 0,
                      n_log_ios := add64 (n_log_ios (log_sys w3)) 1,
                      last_checkpoint_lsn := ?fl\<rparr>\<rparr>"
    using fin same by (auto simp: checkpoint_finish_def one)
  have files: "m_main_file (new_redo w3) = m_main_file (new_redo w)"
              "m_main_file_size (new_redo w3) = m_main_file_size (new_redo w)"
              "m_data_file_position (new_redo w3) = m_data_file_position (new_redo w)"
              "m_sequence_bit (new_redo w3) = m_sequence_bit (new_redo w)"
    using fr by (simp_all add: checkpoint_frame_def)
  show ?thesis
    using w' fl append_checkpoint_durable_requests [of "new_redo w3" ?fl]
    by (simp add: files)
qed

text \<open>
  Claim C3, as the code has it. \<^verbatim>\<open>log_checkpoint\<close> returns false exactly when the selected
  LSN differs from the last checkpoint and a checkpoint write is pending; when nothing was
  logged since the last checkpoint it returns true.
\<close>

theorem log_checkpoint_returns_false:
  assumes ret: "log_checkpoint w = Inr (success, w')"
  shows "\<not> success \<longleftrightarrow>
           log_buf_pool_get_oldest_modification w \<noteq> last_checkpoint_lsn (log_sys w) \<and>
           n_pending_checkpoint_writes (log_sys w) \<noteq> 0"
proof (cases "log_buf_pool_get_oldest_modification w = last_checkpoint_lsn (log_sys w)")
  case True
  then show ?thesis
    using ret by (simp add: log_checkpoint_unfold)
next
  case False
  let ?fl = "log_buf_pool_get_oldest_modification w"
  from log_checkpoint_progress [OF ret False] obtain w3 where
    fr: "checkpoint_frame w w3" and fin: "checkpoint_finish ?fl w3 = Inr (success, w')"
    by blast
  have same: "last_checkpoint_lsn (log_sys w3) \<noteq> ?fl"
             "n_pending_checkpoint_writes (log_sys w3) = n_pending_checkpoint_writes (log_sys w)"
    using fr False by (simp_all add: checkpoint_frame_def)
  show ?thesis
    using fin same False by (auto simp: checkpoint_finish_def split: if_splits)
qed

lemma example_dirty_checkpoint:
  "log_checkpoint example_dirty =
     Inr (True,
          example_dirty
            \<lparr>events := [Fil_flush_file_spaces],
             new_redo := snd (append_checkpoint_durable 8100 redo_at_6_of_8),
             log_sys := example_log_sys
               \<lparr>next_checkpoint_lsn := 8100, n_log_ios := 1, last_checkpoint_lsn := 8100\<rparr>\<rparr>)"
  by (simp add: log_checkpoint_def log_write_up_to_def log_buf_pool_get_oldest_modification_def
                example_dirty_def example_world_def example_log_sys_def run_defs)

lemma example_busy_checkpoint:
  "log_checkpoint example_busy =
     Inr (False, example_busy\<lparr>events := [Fil_flush_file_spaces]\<rparr>)"
  by (simp add: log_checkpoint_def log_write_up_to_def log_buf_pool_get_oldest_modification_def
                example_busy_def example_world_def example_log_sys_def run_defs)

lemma example_world_checkpoint:
  "log_checkpoint example_world =
     Inr (True, example_world\<lparr>events := [Fil_flush_file_spaces]\<rparr>)"
  by (simp add: log_checkpoint_def log_buf_pool_get_oldest_modification_def
                example_world_def example_log_sys_def run_defs)

text \<open>Claim C2 at the state with a dirty page at LSN 8100.\<close>

theorem log_checkpoint_selects_oldest_witness:
  "log_checkpoint example_dirty =
     Inr (True,
          example_dirty
            \<lparr>events := [Fil_flush_file_spaces],
             new_redo := snd (append_checkpoint_durable 8100 redo_at_6_of_8),
             log_sys := example_log_sys
               \<lparr>next_checkpoint_lsn := 8100, n_log_ios := 1, last_checkpoint_lsn := 8100\<rparr>\<rparr>) \<and>
   log_buf_pool_get_oldest_modification example_dirty \<noteq> last_checkpoint_lsn (log_sys example_dirty) \<and>
   n_pending_checkpoint_writes (log_sys example_dirty) = 0 \<and>
   buf_pool_oldest_modification example_dirty = 8100 \<and>
   io_done (m_main_file (snd (append_checkpoint_durable 8100 redo_at_6_of_8))) =
     [IO_write 0 (checkpoint_record 8100 6 1), IO_flush]"
proof -
  have h2: "log_buf_pool_get_oldest_modification example_dirty \<noteq>
            last_checkpoint_lsn (log_sys example_dirty)"
    by (simp add: log_buf_pool_get_oldest_modification_def example_dirty_def
                  example_world_def example_log_sys_def)
  have h3: "n_pending_checkpoint_writes (log_sys example_dirty) = 0"
    by (simp add: example_dirty_def example_world_def example_log_sys_def)
  have v: "buf_pool_oldest_modification example_dirty = 8100"
    by (simp add: example_dirty_def example_world_def)
  have f: "io_answers (m_main_file (new_redo example_dirty)) = []"
          "io_done (m_main_file (new_redo example_dirty)) = []"
          "m_main_file_size (new_redo example_dirty) = 0"
          "m_data_file_position (new_redo example_dirty) = 6"
          "m_sequence_bit (new_redo example_dirty) = 1"
          "\<not> m_durable_writes (m_main_file (new_redo example_dirty))"
    by (simp_all add: example_dirty_def example_defs)
  from log_checkpoint_selects_oldest [OF example_dirty_checkpoint h2 h3]
       example_dirty_checkpoint h2 h3 v f
  show ?thesis by simp
qed

text \<open>
  Claim C2 as the spec states it fails there: the checkpoint is written at LSN 8100, and
  the larger of the oldest modification and \<open>log_sys.lsn\<close> is 8204.
\<close>

theorem log_checkpoint_max_counterexample:
  "\<not> isl (log_checkpoint example_dirty) \<and>
   fst (projr (log_checkpoint example_dirty)) \<and>
   n_log_ios (log_sys (snd (projr (log_checkpoint example_dirty)))) =
     n_log_ios (log_sys example_dirty) + 1 \<and>
   last_checkpoint_lsn (log_sys (snd (projr (log_checkpoint example_dirty)))) = 8100 \<and>
   max (buf_pool_oldest_modification example_dirty) (lsn (log_sys example_dirty)) = 8204"
  by (simp add: example_dirty_checkpoint)
     (simp add: example_dirty_def example_world_def example_log_sys_def)

text \<open>Claim C3 at the same state while another checkpoint write is pending.\<close>

theorem log_checkpoint_returns_false_witness:
  "log_checkpoint example_busy = Inr (False, example_busy\<lparr>events := [Fil_flush_file_spaces]\<rparr>) \<and>
   log_buf_pool_get_oldest_modification example_busy \<noteq> last_checkpoint_lsn (log_sys example_busy) \<and>
   n_pending_checkpoint_writes (log_sys example_busy) \<noteq> 0"
  using log_checkpoint_returns_false [OF example_busy_checkpoint] example_busy_checkpoint
  by simp

text \<open>
  Claim C3 as the spec states it fails at the server at rest: no progress is made, the
  selected LSN being the last checkpoint, and the call returns true.
\<close>

theorem log_checkpoint_no_progress_counterexample:
  "\<not> isl (log_checkpoint example_world) \<and>
   fst (projr (log_checkpoint example_world)) \<and>
   log_buf_pool_get_oldest_modification example_world = last_checkpoint_lsn (log_sys example_world) \<and>
   last_checkpoint_lsn (log_sys (snd (projr (log_checkpoint example_world)))) =
     last_checkpoint_lsn (log_sys example_world)"
  by (simp add: example_world_checkpoint)
     (simp add: log_buf_pool_get_oldest_modification_def example_world_def example_log_sys_def)

subsection \<open>Records of the data file\<close>

lemma funpow_8: "(f ^^ 8) x = f (f (f (f (f (f (f (f x)))))))"
  by (simp add: eval_nat_numeral)

lemma mach_write_to_4:
  "mach_write_to 4 n =
     [of_nat (n div 256 ^ 3), of_nat (n div 256 ^ 2), of_nat (n div 256), of_nat n]"
proof -
  have "mach_write_to (Suc (Suc (Suc (Suc 0)))) n =
     [of_nat (n div 256 ^ 3), of_nat (n div 256 ^ 2), of_nat (n div 256), of_nat n]"
    by (simp add: numeral_3_eq_3 numeral_2_eq_2)
  then show ?thesis by (simp only: numeral_eq_Suc pred_numeral_simps Num.BitM.simps)
qed

lemma data_header_plain:
  assumes "b \<le> 1"
  shows "data_header s 0 b = (4 * s) mod 2 ^ 32 + b"
proof -
  have ev: "even ((4 * s) mod 2 ^ 32)"
    by (rule dvd_mod) simp_all
  have "data_header s 0 b = ((4 * s) mod 2 ^ 32) OR b"
    by (simp add: data_header_def push_bit_eq_mult mult.commute)
  also have "\<dots> = (4 * s) mod 2 ^ 32 + b"
  proof (cases "b = 0")
    case True
    then show ?thesis by simp
  next
    case False
    with assms have b: "b = 1" by simp
    have "(4 * s) mod 2 ^ 32 OR (1::nat) = (4 * s) mod 2 ^ 32 + of_bool (even ((4 * s) mod 2 ^ 32))"
      by (rule or_one_eq)
    then show ?thesis unfolding b using ev by simp
  qed
  finally show ?thesis .
qed

text \<open>
  Claim C8, as the code has it. The record that \<^verbatim>\<open>append_mtr_data\<close> hands to
  \<^verbatim>\<open>append_wrapped\<close> is the encoded header \<open>size << 2 | skip_bit << 1 | sequence_bit\<close> with
  \<open>skip_bit = 0\<close>, then the payload, then four bytes holding, most significant byte first,
  the CRC-32C of the header encoded \<^emph>\<open>with both bits zero\<close> followed by the payload; the
  size is the payload length plus 4 (below \<open>2^30\<close>, the header is \<open>4 * size\<close> plus the
  sequence bit). The encoder is any function that gives the header the same length with
  and without the sequence bit, as the variable-length encoding does.
\<close>

theorem append_mtr_data_record:
  assumes same_length:
    "length (enc (data_header (record_size payload) 0 (unat (m_sequence_bit r)))) =
     length (enc (data_header (record_size payload) 0 0))"
  shows "append_mtr_data enc payload r =
           append_wrapped
             (enc (data_header (record_size payload) 0 (unat (m_sequence_bit r))) @
              concat payload @
              mach_write_to 4
                (unat (ut_crc32 (enc (data_header (record_size payload) 0 0) @ concat payload))))
             r \<and>
         length (mach_write_to 4
                (unat (ut_crc32 (enc (data_header (record_size payload) 0 0) @ concat payload)))) = 4 \<and>
         (length (concat payload) + 4 < 2 ^ 30 \<longrightarrow>
            record_size payload = length (concat payload) + 4 \<and>
            data_header (record_size payload) 0 (unat (m_sequence_bit r)) =
              4 * record_size payload + unat (m_sequence_bit r))"
proof -
  have h0: "data_header (record_size payload) 0 0 = push_bit 2 (record_size payload) mod 2 ^ 32"
    by (simp add: data_header_def)
  have "unat (m_sequence_bit r) < 2 ^ LENGTH(1)"
    by (rule unsigned_less)
  then have one: "unat (m_sequence_bit r) \<le> 1"
    by simp
  have a: "append_mtr_data enc payload r =
           append_wrapped
             (enc (data_header (record_size payload) 0 (unat (m_sequence_bit r))) @
              concat payload @
              mach_write_to 4
                (unat (ut_crc32 (enc (data_header (record_size payload) 0 0) @ concat payload))))
             r"
  proof -
    define H0 where "H0 = enc (data_header (record_size payload) 0 0)"
    define H1 where "H1 = enc (data_header (record_size payload) 0 (unat (m_sequence_bit r)))"
    have len: "length H1 = length H0"
      using same_length by (simp add: H0_def H1_def)
    have "append_mtr_data enc payload r =
            append_wrapped
              (H1 @ drop (length H1)
                 ((H0 @ concat payload) @
                  mach_write_to 4 (unat (ut_crc32 (H0 @ concat payload))))) r"
      by (simp add: append_mtr_data_def Let_def data_header_def record_size_def H0_def H1_def)
    also have "drop (length H1)
                 ((H0 @ concat payload) @
                  mach_write_to 4 (unat (ut_crc32 (H0 @ concat payload)))) =
               concat payload @ mach_write_to 4 (unat (ut_crc32 (H0 @ concat payload)))"
      by (simp add: len)
    finally show ?thesis
      by (simp only: H0_def H1_def)
  qed
  have b: "length (concat payload) + 4 < 2 ^ 30 \<Longrightarrow>
            record_size payload = length (concat payload) + 4 \<and>
            data_header (record_size payload) 0 (unat (m_sequence_bit r)) =
              4 * record_size payload + unat (m_sequence_bit r)"
  proof -
    assume small: "length (concat payload) + 4 < 2 ^ 30"
    then have rs: "record_size payload = length (concat payload) + 4"
      by (simp add: record_size_def)
    have "4 * record_size payload < 2 ^ 32"
      using small rs by simp
    then show ?thesis
      using rs by (simp add: data_header_plain [OF one])
  qed
  have c: "length (mach_write_to 4 n) = 4" for n
    by (simp add: mach_write_to_4)
  show ?thesis
    using a b c by blast
qed

lemma mlog_encode_varint_length:
  "length (mlog_encode_varint n) =
     (if n < 128 then 1 else if n < 16512 then 2 else if n < 2113664 then 3
      else if n < 270549120 then 4 else 5)"
  by (simp add: mlog_encode_varint_def MIN_2BYTE_def MIN_3BYTE_def MIN_4BYTE_def MIN_5BYTE_def
                Let_def)

lemma mlog_encode_varint_same_length:
  "length (mlog_encode_varint (data_header s 0 (unat (b :: 1 word)))) =
   length (mlog_encode_varint (data_header s 0 0))"
proof -
  have "unat b < 2 ^ LENGTH(1)"
    by (rule unsigned_less)
  then have one: "unat b \<le> 1"
    by simp
  define h where "h = (4 * s) mod (2 ^ 32 :: nat)"
  have h4: "h mod 4 = 0"
    unfolding h_def by (simp add: mod_mod_cancel)
  have d1: "data_header s 0 (unat b) = h + unat b"
    using data_header_plain [OF one, of s] by (simp add: h_def)
  have d0: "data_header s 0 0 = h"
    using data_header_plain [of 0 s] by (simp add: h_def)
  show ?thesis
    unfolding d0 d1 mlog_encode_varint_length using h4 one by presburger
qed

lemma example_crc:
  "ut_crc32 [20, 0x42] = 0x206e8ac4"
  "ut_crc32 [21, 0x42] = 0x33cc12b3"
  by (simp_all add: ut_crc32_def crc32c_byte_def funpow_8 crc32c_shift_def)

lemma example_crc_bytes:
  "mach_write_to 4 544115396 = [32, 110, 138, 196]"
  "mach_write_to 4 869012147 = [51, 204, 18, 179]"
  by (simp_all add: mach_write_to_4)

lemma example_header:
  "(length (concat [[0x42 :: byte]]) + 4) mod 2 ^ 32 = 5"
  "push_bit 2 (5 :: nat) mod 2 ^ 32 = 20"
  "(20 :: nat) OR push_bit 1 0 OR unat (m_sequence_bit redo_initialized) = 21"
  "mlog_encode_varint 20 = [20]"
  "mlog_encode_varint 21 = [21]"
  by (simp_all add: push_bit_eq_mult redo_initialized_def mlog_encode_varint_def MIN_2BYTE_def)

lemma example_record:
  "append_mtr_data mlog_encode_varint [[0x42]] redo_initialized =
     append_wrapped [21, 0x42, 32, 110, 138, 196] redo_initialized"
  unfolding append_mtr_data_def Let_def example_header
  by (simp add: example_crc example_crc_bytes)

text \<open>Claim C8 at a payload of one byte, on an empty data file with the sequence bit set.\<close>

theorem append_mtr_data_record_witness:
  "length (mlog_encode_varint
             (data_header (record_size [[0x42]]) 0 (unat (m_sequence_bit redo_initialized)))) =
   length (mlog_encode_varint (data_header (record_size [[0x42]]) 0 0)) \<and>
   append_mtr_data mlog_encode_varint [[0x42]] redo_initialized =
     append_wrapped
       ([21] @ [0x42] @ mach_write_to 4 (unat (ut_crc32 ([20] @ [0x42])))) redo_initialized \<and>
   record_size [[0x42]] = 5 \<and>
   data_header (record_size [[0x42]]) 0 (unat (m_sequence_bit redo_initialized)) = 21"
proof -
  have h: "length (mlog_encode_varint
             (data_header (record_size [[0x42]]) 0 (unat (m_sequence_bit redo_initialized)))) =
           length (mlog_encode_varint (data_header (record_size [[0x42]]) 0 0))"
    by (rule mlog_encode_varint_same_length)
  have rs: "record_size [[0x42]] = 5"
    by (simp add: record_size_def)
  have d: "unat (m_sequence_bit redo_initialized) = 1"
          "data_header 5 0 1 = 21" "data_header 5 0 (Suc 0) = 21" "data_header 5 0 0 = 20"
    by (simp_all add: data_header_def redo_initialized_def push_bit_eq_mult)
  from append_mtr_data_record [OF h] h show ?thesis
    by (simp add: rs d example_header)
qed

text \<open>
  Claim C8 as the spec states it fails at the same input: the four bytes that follow the
  payload in the file are not the CRC-32C of the two bytes written before them.
\<close>

theorem append_mtr_data_crc_counterexample:
  "io_done (m_data_file (snd (append_mtr_data mlog_encode_varint [[0x42]] redo_initialized))) =
     [IO_write 0 [21, 0x42, 32, 110, 138, 196]] \<and>
   mach_write_to 4 (unat (ut_crc32 [21, 0x42])) = [51, 204, 18, 179] \<and>
   mach_write_to 4 (unat (ut_crc32 [21, 0x42])) \<noteq> [32, 110, 138, 196]"
proof -
  have "append_wrapped [21, 0x42, 32, 110, 138, 196] redo_initialized =
          (DB_SUCCESS,
           redo_initialized
             \<lparr>m_data_file := closed_file
                \<lparr>file_bytes := [21, 0x42, 32, 110, 138, 196],
                 io_done := [IO_write 0 [21, 0x42, 32, 110, 138, 196]]\<rparr>,
              m_data_file_position := 6\<rparr>)"
    by (simp add: append_wrapped_def redo_initialized_def closed_file_def file_write_def
                  next_answer_def pwrite_def add64_def Let_def)
  moreover have "mach_write_to 4 (unat (ut_crc32 [21, 0x42])) = [51, 204, 18, 179]"
    by (simp add: example_crc example_crc_bytes)
  ultimately show ?thesis
    by (simp add: example_record)
qed

subsection \<open>Memory and header fields\<close>

lemma mem_read_memcpy_same: "mem_read (memcpy mem a bs) a (length bs) = bs"
  by (auto simp add: mem_read_def memcpy_def intro!: nth_equalityI)

lemma mem_read_memcpy_other:
  "a + n \<le> d \<or> d + length bs \<le> a \<Longrightarrow> mem_read (memcpy mem d bs) a n = mem_read mem a n"
  by (auto simp add: mem_read_def memcpy_def)

lemma length_mach_write_to: "length (mach_write_to k n) = k"
  by (induction k) simp_all

lemma foldl_mach_write_to:
  "foldl (\<lambda>acc b. acc * 256 + unat (b :: byte)) acc (mach_write_to k n) =
     acc * 256 ^ k + n mod 256 ^ k"
proof (induction k arbitrary: acc)
  case 0
  then show ?case by simp
next
  case (Suc k)
  have u: "unat (of_nat (n div 256 ^ k) :: byte) = n div 256 ^ k mod 256"
    by (simp add: unat_of_nat)
  have m: "n mod 256 ^ Suc k = 256 ^ k * (n div 256 ^ k mod 256) + n mod 256 ^ k"
    using mod_mult2_eq [of n "256 ^ k" 256] by (simp add: mult.commute)
  have "foldl (\<lambda>acc b. acc * 256 + unat (b :: byte)) acc (mach_write_to (Suc k) n) =
        (acc * 256 + n div 256 ^ k mod 256) * 256 ^ k + n mod 256 ^ k"
    by (simp add: Suc u)
  also have "\<dots> = acc * 256 ^ Suc k + n mod 256 ^ Suc k"
    unfolding m by (simp add: algebra_simps)
  finally show ?case .
qed

lemma mach_read_write: "mach_read_from (mach_write_to k n) = n mod 256 ^ k"
  by (simp add: mach_read_from_def foldl_mach_write_to)

lemma mem_read_memcpy_at:
  "a = d \<Longrightarrow> n = length bs \<Longrightarrow> mem_read (memcpy mem d bs) a n = bs"
  by (simp add: mem_read_memcpy_same)

lemmas field_defs =
  log_block_get_data_len_def log_block_set_data_len_def
  log_block_get_checkpoint_no_def log_block_set_checkpoint_no_def
  log_block_get_first_rec_group_def log_block_set_first_rec_group_def
  log_block_set_hdr_no_def log_block_init_def
  LOG_BLOCK_HDR_NO_def LOG_BLOCK_HDR_DATA_LEN_def LOG_BLOCK_FIRST_REC_GROUP_def
  LOG_BLOCK_CHECKPOINT_NO_def LOG_BLOCK_HDR_SIZE_def OS_FILE_LOG_BLOCK_SIZE_def

lemma convert_lsn_to_no_bound: "log_block_convert_lsn_to_no l < 256 ^ 4"
proof -
  have "(l div 512) mod 2 ^ 31 < (2 ^ 31 :: nat)"
    by (rule mod_less_divisor) simp
  then show ?thesis
    by (simp add: log_block_convert_lsn_to_no_def OS_FILE_LOG_BLOCK_SIZE_def)
qed

lemma completed_block_memory:
  assumes lo: "12 \<le> off" and hi: "off + length bs \<le> 512"
    and m': "m' = log_block_init
                   (log_block_set_checkpoint_no
                      (log_block_set_data_len
                         (log_block_set_data_len (memcpy m (blk + off) bs) blk d)
                         blk OS_FILE_LOG_BLOCK_SIZE)
                      blk no)
                   (blk + OS_FILE_LOG_BLOCK_SIZE) l"
  shows "log_block_get_data_len m' blk = OS_FILE_LOG_BLOCK_SIZE"
    and "log_block_get_checkpoint_no m' blk = no mod 2 ^ 32"
    and "mem_read m' (blk + off) (length bs) = bs"
    and "mach_read_from (mem_read m' (blk + OS_FILE_LOG_BLOCK_SIZE + LOG_BLOCK_HDR_NO) 4) =
           log_block_convert_lsn_to_no l"
    and "log_block_get_data_len m' (blk + OS_FILE_LOG_BLOCK_SIZE) = LOG_BLOCK_HDR_SIZE"
    and "log_block_get_first_rec_group m' (blk + OS_FILE_LOG_BLOCK_SIZE) = 0"
proof -
  show "log_block_get_data_len m' blk = OS_FILE_LOG_BLOCK_SIZE"
    unfolding m' field_defs Let_def
    by (simp add: mem_read_memcpy_other mem_read_memcpy_at length_mach_write_to mach_read_write)
  show "log_block_get_checkpoint_no m' blk = no mod 2 ^ 32"
    unfolding m' field_defs Let_def
    by (simp add: mem_read_memcpy_other mem_read_memcpy_at length_mach_write_to mach_read_write)
  show "mem_read m' (blk + off) (length bs) = bs"
    unfolding m' field_defs Let_def using lo hi
    by (simp add: mem_read_memcpy_other mem_read_memcpy_at length_mach_write_to)
  show "mach_read_from (mem_read m' (blk + OS_FILE_LOG_BLOCK_SIZE + LOG_BLOCK_HDR_NO) 4) =
           log_block_convert_lsn_to_no l"
    unfolding m' field_defs Let_def using convert_lsn_to_no_bound [of l]
    by (simp add: mem_read_memcpy_other mem_read_memcpy_at length_mach_write_to mach_read_write)
  show "log_block_get_data_len m' (blk + OS_FILE_LOG_BLOCK_SIZE) = LOG_BLOCK_HDR_SIZE"
    unfolding m' field_defs Let_def
    by (simp add: mem_read_memcpy_other mem_read_memcpy_at length_mach_write_to mach_read_write)
  show "log_block_get_first_rec_group m' (blk + OS_FILE_LOG_BLOCK_SIZE) = 0"
    unfolding m' field_defs Let_def
    by (simp add: mem_read_memcpy_other mem_read_memcpy_at length_mach_write_to mach_read_write)
qed

lemma partial_block_memory:
  assumes lo: "12 \<le> off" and hi: "off + length bs < 512"
    and m': "m' = log_block_set_data_len (memcpy m (blk + off) bs) blk (off + length bs)"
  shows "log_block_get_data_len m' blk = off + length bs"
    and "log_block_get_checkpoint_no m' blk = log_block_get_checkpoint_no m blk"
    and "mem_read m' (blk + off) (length bs) = bs"
proof -
  have "off + length bs < 256 ^ 2"
    using hi by simp
  then show "log_block_get_data_len m' blk = off + length bs"
    unfolding m' field_defs
    by (simp add: mem_read_memcpy_at length_mach_write_to mach_read_write)
  show "log_block_get_checkpoint_no m' blk = log_block_get_checkpoint_no m blk"
    unfolding m' field_defs using lo
    by (simp add: mem_read_memcpy_other length_mach_write_to)
  show "mem_read m' (blk + off) (length bs) = bs"
    unfolding m' field_defs using lo
    by (simp add: mem_read_memcpy_other mem_read_memcpy_at length_mach_write_to)
qed

lemma completed_block_frame:
  assumes lo: "12 \<le> off" and hi: "off + length bs \<le> 512"
    and m': "m' = log_block_init
                   (log_block_set_checkpoint_no
                      (log_block_set_data_len
                         (log_block_set_data_len (memcpy m (blk + off) bs) blk d)
                         blk OS_FILE_LOG_BLOCK_SIZE)
                      blk no)
                   (blk + OS_FILE_LOG_BLOCK_SIZE) l"
    and x: "x < blk + 4 \<or> (blk + 6 \<le> x \<and> x < blk + 8) \<or> (blk + 12 \<le> x \<and> x < blk + off) \<or>
            blk + 520 \<le> x"
  shows "m' x = m x"
  using lo hi x unfolding m' field_defs Let_def memcpy_def
  by (auto simp add: length_mach_write_to)

lemma partial_block_frame:
  assumes lo: "12 \<le> off" and hi: "off + length bs < 512"
    and m': "m' = log_block_set_data_len (memcpy m (blk + off) bs) blk d"
    and x: "x < blk + 4 \<or> (blk + 6 \<le> x \<and> x < blk + 8) \<or> (blk + 12 \<le> x \<and> x < blk + off) \<or>
            blk + 520 \<le> x"
  shows "m' x = m x"
  using lo hi x unfolding m' field_defs Let_def memcpy_def
  by (auto simp add: length_mach_write_to)

subsection \<open>One pass of \<^verbatim>\<open>log_write_low\<close>\<close>

lemma framing_size_bound: "framing_size ls \<le> 20"
  by (simp add: framing_size_def LOG_BLOCK_HDR_SIZE_def LOG_BLOCK_KEY_def LOG_BLOCK_CHECKSUM_def)

lemma add64_block: "a < 512 \<Longrightarrow> b \<le> 20 \<Longrightarrow> add64 a b = a + b"
  by (rule add64_small) simp

lemma add64_assoc: "add64 (add64 a b) c = add64 a (b + c)"
  unfolding add64_def by (simp add: mod_add_left_eq add.assoc)

lemma block_address:
  assumes aligned: "buf ls mod OS_FILE_LOG_BLOCK_SIZE = 0"
  shows "buf ls + buf_free ls = current_block ls + block_offset ls"
proof -
  have "(buf ls + buf_free ls) mod OS_FILE_LOG_BLOCK_SIZE = block_offset ls"
    using aligned by (simp add: block_offset_def mod_add_left_eq [symmetric, of "buf ls"])
  moreover have "(buf ls + buf_free ls) mod OS_FILE_LOG_BLOCK_SIZE \<le> buf ls + buf_free ls"
    by (rule mod_less_eq_dividend)
  ultimately show ?thesis
    by (simp add: current_block_def ut_2pow_round_def)
qed

lemma pass_over:
  assumes aligned: "buf ls mod OS_FILE_LOG_BLOCK_SIZE = 0"
      and lo: "LOG_BLOCK_HDR_SIZE \<le> block_offset ls"
      and hi: "block_offset ls \<le> trailer_offset ls"
      and over: "\<not> fits str ls"
  shows "fst (log_write_low_part str ls) = drop (trailer_offset ls - block_offset ls) str"
    and "mem_read (buf_mem (snd (log_write_low_part str ls))) (buf ls + buf_free ls)
           (trailer_offset ls - block_offset ls) =
         take (trailer_offset ls - block_offset ls) str"
    and "completes_block ls (trailer_offset ls - block_offset ls) (snd (log_write_low_part str ls))"
    and "buf (snd (log_write_low_part str ls)) = buf ls"
    and "x < current_block ls + 4 \<or> (current_block ls + 6 \<le> x \<and> x < current_block ls + 8) \<or>
         (current_block ls + 12 \<le> x \<and> x < buf ls + buf_free ls) \<or> current_block ls + 520 \<le> x \<Longrightarrow>
         buf_mem (snd (log_write_low_part str ls)) x = buf_mem ls x"
proof -
  define off where "off = block_offset ls"
  define blk where "blk = current_block ls"
  define T where "T = trailer_offset ls"
  define F where "F = framing_size ls"
  define bs where "bs = take (T - off) str"
  have Tb: "T < 512" "T < 2 ^ 64"
    using trailer_offset_bounds [of ls] by (simp_all add: T_def)
  have off: "12 \<le> off" "off \<le> T"
    using lo hi by (simp_all add: off_def T_def LOG_BLOCK_HDR_SIZE_def)
  have sub: "sub64 T (buf_free ls mod OS_FILE_LOG_BLOCK_SIZE) = T - off"
    using sub64_small [OF off(2) Tb(2)] by (simp add: off_def block_offset_def)
  have "add64 off (length str) \<le> off + length str"
    by (simp add: add64_def)
  moreover have "T < add64 off (length str)"
    using over by (simp add: fits_def T_def off_def block_offset_def)
  ultimately have long: "T - off < length str"
    using off(2) by linarith
  then have len_bs: "length bs = T - off"
    by (simp add: bs_def)
  have addF: "add64 (T - off) F = T - off + F"
    using Tb(1) framing_size_bound [of ls] by (intro add64_block) (simp_all add: F_def)
  have addr: "buf ls + buf_free ls = blk + off"
    using block_address [OF aligned] by (simp add: blk_def off_def)
  have blk: "ut_2pow_round (blk + off) OS_FILE_LOG_BLOCK_SIZE = blk"
    unfolding addr [symmetric] by (simp add: blk_def current_block_def)
  define m' where "m' = log_block_init
                   (log_block_set_checkpoint_no
                      (log_block_set_data_len
                         (log_block_set_data_len (memcpy (buf_mem ls) (blk + off) bs) blk T)
                         blk OS_FILE_LOG_BLOCK_SIZE)
                      blk (next_checkpoint_no ls))
                   (blk + OS_FILE_LOG_BLOCK_SIZE) (add64 (lsn ls) (T - off + F))"
  have part: "log_write_low_part str ls =
          (drop (T - off) str,
           ls\<lparr>buf_mem := m', lsn := add64 (lsn ls) (T - off + F),
              buf_free := add64 (buf_free ls) (T - off + F)\<rparr>)"
    using over unfolding log_write_low_part_def fits_def Let_def
    by (simp add: sub addr blk T_def [symmetric] F_def [symmetric] addF bs_def m'_def)
  show "fst (log_write_low_part str ls) = drop (trailer_offset ls - block_offset ls) str"
    by (simp add: part T_def off_def)
  have hi': "off + length bs \<le> 512"
    using len_bs off Tb by simp
  note mem = completed_block_memory [OF off(1) hi' m'_def]
  show "mem_read (buf_mem (snd (log_write_low_part str ls))) (buf ls + buf_free ls)
           (trailer_offset ls - block_offset ls) =
         take (trailer_offset ls - block_offset ls) str"
    using mem(3) unfolding len_bs by (simp add: part addr bs_def T_def off_def)
  show "completes_block ls (trailer_offset ls - block_offset ls) (snd (log_write_low_part str ls))"
    unfolding completes_block_def
    using mem(1,2,4,5,6) by (simp add: part blk_def T_def off_def F_def)
  show "buf (snd (log_write_low_part str ls)) = buf ls"
    by (simp add: part)
  show "buf_mem (snd (log_write_low_part str ls)) x = buf_mem ls x"
    if "x < current_block ls + 4 \<or> (current_block ls + 6 \<le> x \<and> x < current_block ls + 8) \<or>
        (current_block ls + 12 \<le> x \<and> x < buf ls + buf_free ls) \<or> current_block ls + 520 \<le> x"
  proof -
    have "x < blk + 4 \<or> (blk + 6 \<le> x \<and> x < blk + 8) \<or> (blk + 12 \<le> x \<and> x < blk + off) \<or>
          blk + 520 \<le> x"
      using that unfolding addr by (simp add: blk_def)
    then have "m' x = buf_mem ls x"
      by (rule completed_block_frame [OF off(1) hi' m'_def])
    then show ?thesis
      by (simp add: part)
  qed
qed

lemma pass_exact:
  assumes aligned: "buf ls mod OS_FILE_LOG_BLOCK_SIZE = 0"
      and lo: "LOG_BLOCK_HDR_SIZE \<le> block_offset ls"
      and exact: "block_offset ls + length str = trailer_offset ls"
  shows "fst (log_write_low_part str ls) = []"
    and "mem_read (buf_mem (snd (log_write_low_part str ls))) (buf ls + buf_free ls) (length str) =
         str"
    and "completes_block ls (length str) (snd (log_write_low_part str ls))"
    and "x < current_block ls + 4 \<or> (current_block ls + 6 \<le> x \<and> x < current_block ls + 8) \<or>
         (current_block ls + 12 \<le> x \<and> x < buf ls + buf_free ls) \<or> current_block ls + 520 \<le> x \<Longrightarrow>
         buf_mem (snd (log_write_low_part str ls)) x = buf_mem ls x"
proof -
  define off where "off = block_offset ls"
  define blk where "blk = current_block ls"
  define T where "T = trailer_offset ls"
  define F where "F = framing_size ls"
  have Tb: "T < 512" "T < 2 ^ 64"
    using trailer_offset_bounds [of ls] by (simp_all add: T_def)
  have off: "12 \<le> off" "off + length str = T"
    using lo exact by (simp_all add: off_def T_def LOG_BLOCK_HDR_SIZE_def)
  have data_len: "add64 (buf_free ls mod OS_FILE_LOG_BLOCK_SIZE) (length str) = T"
    using add64_small [of off "length str"] off(2) Tb(2) by (simp add: off_def block_offset_def)
  have addF: "add64 (length str) F = length str + F"
    using Tb(1) off(2) framing_size_bound [of ls] by (intro add64_block) (simp_all add: F_def)
  have addr: "buf ls + buf_free ls = blk + off"
    using block_address [OF aligned] by (simp add: blk_def off_def)
  have blk: "ut_2pow_round (blk + off) OS_FILE_LOG_BLOCK_SIZE = blk"
    unfolding addr [symmetric] by (simp add: blk_def current_block_def)
  define m' where "m' = log_block_init
                   (log_block_set_checkpoint_no
                      (log_block_set_data_len
                         (log_block_set_data_len (memcpy (buf_mem ls) (blk + off) str) blk T)
                         blk OS_FILE_LOG_BLOCK_SIZE)
                      blk (next_checkpoint_no ls))
                   (blk + OS_FILE_LOG_BLOCK_SIZE) (add64 (lsn ls) (length str + F))"
  have part: "log_write_low_part str ls =
          ([],
           ls\<lparr>buf_mem := m', lsn := add64 (lsn ls) (length str + F),
              buf_free := add64 (buf_free ls) (length str + F)\<rparr>)"
    unfolding log_write_low_part_def Let_def T_def [symmetric] data_len
    by (simp add: addr blk F_def [symmetric] addF m'_def)
  show "fst (log_write_low_part str ls) = []"
    by (simp add: part)
  have hi': "off + length str \<le> 512"
    using off Tb by simp
  note mem = completed_block_memory [OF off(1) hi' m'_def]
  show "mem_read (buf_mem (snd (log_write_low_part str ls))) (buf ls + buf_free ls) (length str) =
         str"
    using mem(3) by (simp add: part addr)
  show "completes_block ls (length str) (snd (log_write_low_part str ls))"
    unfolding completes_block_def
    using mem(1,2,4,5,6) by (simp add: part blk_def T_def off_def F_def)  show "buf_mem (snd (log_write_low_part str ls)) x = buf_mem ls x"
    if "x < current_block ls + 4 \<or> (current_block ls + 6 \<le> x \<and> x < current_block ls + 8) \<or>
        (current_block ls + 12 \<le> x \<and> x < buf ls + buf_free ls) \<or> current_block ls + 520 \<le> x"
  proof -
    have "x < blk + 4 \<or> (blk + 6 \<le> x \<and> x < blk + 8) \<or> (blk + 12 \<le> x \<and> x < blk + off) \<or>
          blk + 520 \<le> x"
      using that unfolding addr by (simp add: blk_def)
    then have "m' x = buf_mem ls x"
      by (rule completed_block_frame [OF off(1) hi' m'_def])
    then show ?thesis
      by (simp add: part)
  qed
qed

lemma pass_partial:
  assumes aligned: "buf ls mod OS_FILE_LOG_BLOCK_SIZE = 0"
      and lo: "LOG_BLOCK_HDR_SIZE \<le> block_offset ls"
      and under: "block_offset ls + length str < trailer_offset ls"
  shows "fst (log_write_low_part str ls) = []"
    and "mem_read (buf_mem (snd (log_write_low_part str ls))) (buf ls + buf_free ls) (length str) =
         str"
    and "log_block_get_data_len (buf_mem (snd (log_write_low_part str ls))) (current_block ls) =
         block_offset ls + length str"
    and "log_block_get_checkpoint_no (buf_mem (snd (log_write_low_part str ls))) (current_block ls) =
         log_block_get_checkpoint_no (buf_mem ls) (current_block ls)"
    and "lsn (snd (log_write_low_part str ls)) = add64 (lsn ls) (length str)"
    and "buf_free (snd (log_write_low_part str ls)) = add64 (buf_free ls) (length str)"
    and "x < current_block ls + 4 \<or> (current_block ls + 6 \<le> x \<and> x < current_block ls + 8) \<or>
         (current_block ls + 12 \<le> x \<and> x < buf ls + buf_free ls) \<or> current_block ls + 520 \<le> x \<Longrightarrow>
         buf_mem (snd (log_write_low_part str ls)) x = buf_mem ls x"
proof -
  define off where "off = block_offset ls"
  define blk where "blk = current_block ls"
  define T where "T = trailer_offset ls"
  have Tb: "T < 512" "T < 2 ^ 64"
    using trailer_offset_bounds [of ls] by (simp_all add: T_def)
  have off: "12 \<le> off" "off + length str < T"
    using lo under by (simp_all add: off_def T_def LOG_BLOCK_HDR_SIZE_def)
  have data_len: "add64 (buf_free ls mod OS_FILE_LOG_BLOCK_SIZE) (length str) = off + length str"
    using add64_small [of off "length str"] off(2) Tb(2) by (simp add: off_def block_offset_def)
  have addr: "buf ls + buf_free ls = blk + off"
    using block_address [OF aligned] by (simp add: blk_def off_def)
  have blk: "ut_2pow_round (blk + off) OS_FILE_LOG_BLOCK_SIZE = blk"
    unfolding addr [symmetric] by (simp add: blk_def current_block_def)
  define m' where
    "m' = log_block_set_data_len (memcpy (buf_mem ls) (blk + off) str) blk (off + length str)"
  have part: "log_write_low_part str ls =
          ([],
           ls\<lparr>buf_mem := m', lsn := add64 (lsn ls) (length str),
              buf_free := add64 (buf_free ls) (length str)\<rparr>)"
    unfolding log_write_low_part_def Let_def T_def [symmetric] data_len
    using off(2) by (simp add: addr blk m'_def)
  show "fst (log_write_low_part str ls) = []"
    by (simp add: part)
  have hi': "off + length str < 512"
    using off Tb by simp
  note mem = partial_block_memory [OF off(1) hi' m'_def]
  show "mem_read (buf_mem (snd (log_write_low_part str ls))) (buf ls + buf_free ls) (length str) =
         str"
    using mem(3) by (simp add: part addr)
  show "log_block_get_data_len (buf_mem (snd (log_write_low_part str ls))) (current_block ls) =
         block_offset ls + length str"
    using mem(1) by (simp add: part blk_def off_def)
  show "log_block_get_checkpoint_no (buf_mem (snd (log_write_low_part str ls))) (current_block ls) =
         log_block_get_checkpoint_no (buf_mem ls) (current_block ls)"
    using mem(2) by (simp add: part blk_def)
  show "lsn (snd (log_write_low_part str ls)) = add64 (lsn ls) (length str)"
    by (simp add: part)
  show "buf_free (snd (log_write_low_part str ls)) = add64 (buf_free ls) (length str)"
    by (simp add: part)  show "buf_mem (snd (log_write_low_part str ls)) x = buf_mem ls x"
    if "x < current_block ls + 4 \<or> (current_block ls + 6 \<le> x \<and> x < current_block ls + 8) \<or>
        (current_block ls + 12 \<le> x \<and> x < buf ls + buf_free ls) \<or> current_block ls + 520 \<le> x"
  proof -
    have "x < blk + 4 \<or> (blk + 6 \<le> x \<and> x < blk + 8) \<or> (blk + 12 \<le> x \<and> x < blk + off) \<or>
          blk + 520 \<le> x"
      using that unfolding addr by (simp add: blk_def)
    then have "m' x = buf_mem ls x"
      by (rule partial_block_frame [OF off(1) hi' m'_def])
    then show ?thesis
      by (simp add: part)
  qed
qed

subsection \<open>All passes of \<^verbatim>\<open>log_write_low\<close>\<close>

lemma part_buf: "buf (snd (log_write_low_part str ls)) = buf ls"
  by (simp add: log_write_low_part_def Let_def case_prod_beta)

lemma part_next_checkpoint_no:
  "next_checkpoint_no (snd (log_write_low_part str ls)) = next_checkpoint_no ls"
  by (simp add: log_write_low_part_def Let_def case_prod_beta)

lemma part_framing_size: "framing_size (snd (log_write_low_part str ls)) = framing_size ls"
  by (simp add: framing_size_def part_format)

lemma block_offset_advance:
  "buf_free ls' = add64 (buf_free ls) x \<Longrightarrow> block_offset ls' = (block_offset ls + x) mod 512"
  by (simp add: block_offset_def OS_FILE_LOG_BLOCK_SIZE_def add64_mod_512 mod_add_left_eq)

lemma trailer_offset_lower: "500 \<le> trailer_offset ls"
  by (simp add: trailer_offset_def OS_FILE_LOG_BLOCK_SIZE_def LOG_BLOCK_CHECKSUM_def LOG_BLOCK_KEY_def)

lemma fits_plain:
  assumes "block_offset ls < 512" and "length str < 2 ^ 63"
  shows "fits str ls \<longleftrightarrow> block_offset ls + length str \<le> trailer_offset ls"
proof -
  have "block_offset ls + length str < 2 ^ 64"
    using assms by simp
  then have "add64 (block_offset ls) (length str) = block_offset ls + length str"
    by (rule add64_small)
  then show ?thesis
    by (simp add: fits_def block_offset_def)
qed

lemma log_write_low_account:
  assumes "buf ls mod OS_FILE_LOG_BLOCK_SIZE = 0"
      and "LOG_BLOCK_HDR_SIZE \<le> block_offset ls"
      and "block_offset ls < trailer_offset ls"
      and "length str < 2 ^ 63"
  shows "lsn (log_write_low str ls) =
           add64 (lsn ls) (length str + blocks_completed ls (length str) * framing_size ls) \<and>
         buf_free (log_write_low str ls) =
           add64 (buf_free ls) (length str + blocks_completed ls (length str) * framing_size ls) \<and>
         LOG_BLOCK_HDR_SIZE \<le> block_offset (log_write_low str ls) \<and>
         block_offset (log_write_low str ls) < trailer_offset (log_write_low str ls)"
  using assms
proof (induction str ls rule: log_write_low.induct)
  case (1 str ls)
  define off where "off = block_offset ls"
  define T where "T = trailer_offset ls"
  define F where "F = framing_size ls"
  define n where "n = length str"
  define str' where "str' = fst (log_write_low_part str ls)"
  define ls' where "ls' = snd (log_write_low_part str ls)"
  note aligned = "1.prems"(1) and lo = "1.prems"(2) and hi = "1.prems"(3) and short = "1.prems"(4)
  have Tb: "500 \<le> T" "T < 512"
    using trailer_offset_lower [of ls] trailer_offset_bounds [of ls] by (simp_all add: T_def)
  have off: "12 \<le> off" "off < T"
    using lo hi by (simp_all add: off_def T_def LOG_BLOCK_HDR_SIZE_def)
  have TF: "(T + F) mod 512 = 12"
    using trailer_plus_framing [of ls] by (simp add: T_def F_def)
  have fits: "fits str ls \<longleftrightarrow> off + n \<le> T"
    using fits_plain [of ls str] off Tb short by (simp add: off_def T_def n_def)
  have T': "trailer_offset ls' = T" and F': "framing_size ls' = F"
    by (simp_all add: ls'_def T_def F_def part_trailer_offset part_framing_size)
  have unfold: "log_write_low str ls = (if 0 < length str' then log_write_low str' ls' else ls')"
    unfolding str'_def ls'_def by (rule log_write_low_unfold)
  have k: "blocks_completed ls n = (off - 12 + n) div (T - 12)"
    by (simp add: blocks_completed_def off_def T_def LOG_BLOCK_HDR_SIZE_def)
  consider (over) "T < off + n" | (exact) "off + n = T" | (under) "off + n < T"
    by linarith
  then have "lsn (log_write_low str ls) = add64 (lsn ls) (n + blocks_completed ls n * F) \<and>
         buf_free (log_write_low str ls) = add64 (buf_free ls) (n + blocks_completed ls n * F) \<and>
         12 \<le> block_offset (log_write_low str ls) \<and>
         block_offset (log_write_low str ls) < trailer_offset (log_write_low str ls)"
  proof cases
    case over
    then have nofit: "\<not> fits str ls"
      by (simp add: fits)
    have hi': "block_offset ls \<le> trailer_offset ls"
      using hi by simp
    note p = pass_over [OF aligned lo hi' nofit]
    have rest: "str' = drop (T - off) str"
      using p(1) by (simp add: str'_def T_def off_def)
    then have n': "length str' = n - (T - off)" "0 < length str'"
      using over off by (simp_all add: n_def)
    have adv: "lsn ls' = add64 (lsn ls) (T - off + F)"
              "buf_free ls' = add64 (buf_free ls) (T - off + F)"
      using p(3) by (simp_all add: completes_block_def ls'_def T_def off_def F_def)
    have "block_offset ls' = (off + (T - off + F)) mod 512"
      using block_offset_advance [OF adv(2)] by (simp add: off_def)
    also have "off + (T - off + F) = T + F"
      using off by simp
    finally have off': "block_offset ls' = 12"
      by (simp add: TF)
    have pre: "buf ls' mod OS_FILE_LOG_BLOCK_SIZE = 0"
              "LOG_BLOCK_HDR_SIZE \<le> block_offset ls'"
              "block_offset ls' < trailer_offset ls'"
              "length str' < 2 ^ 63"
    proof -
      show "buf ls' mod OS_FILE_LOG_BLOCK_SIZE = 0"
        using aligned by (simp add: ls'_def part_buf)
      show "LOG_BLOCK_HDR_SIZE \<le> block_offset ls'"
        by (simp add: off' LOG_BLOCK_HDR_SIZE_def)
      show "block_offset ls' < trailer_offset ls'"
        using Tb by (simp add: off' T')
      show "length str' < 2 ^ 63"
        using short n'(1) by (simp add: n_def)
    qed
    have pair: "(str', ls') = log_write_low_part str ls"
      by (simp add: str'_def ls'_def)
    note ih = "1.IH" [OF pair n'(2) pre]
    have k': "blocks_completed ls' (length str') = (n - (T - off)) div (T - 12)"
      by (simp add: blocks_completed_def off' T' LOG_BLOCK_HDR_SIZE_def n'(1))
    define q where "q = T - 12"
    define r where "r = n - (T - off)"
    have q: "0 < q"
      using Tb by (simp add: q_def)
    have "off - 12 + n = r + q"
      using over off Tb by (simp add: q_def r_def)
    moreover have "(r + q) div q = r div q + 1"
      using q div_add_self2 [of q r] by simp
    ultimately have "(off - 12 + n) div (T - 12) = (n - (T - off)) div (T - 12) + 1"
      by (simp add: q_def r_def)
    then have k1: "blocks_completed ls n = blocks_completed ls' (length str') + 1"
      by (simp add: k k')
    have total: "T - off + F + (length str' + blocks_completed ls' (length str') * F) =
                 n + blocks_completed ls n * F"
      using over off by (simp add: k1 n'(1))
    have same: "log_write_low str ls = log_write_low str' ls'"
      using n'(2) by (simp add: unfold)
    show ?thesis
      using ih unfolding same adv add64_assoc F' T' total
      by (simp add: LOG_BLOCK_HDR_SIZE_def)
  next
    case exact
    then have e: "block_offset ls + length str = trailer_offset ls"
      by (simp add: off_def n_def T_def)
    note p = pass_exact [OF aligned lo e]
    have same: "log_write_low str ls = ls'"
      using p(1) by (simp add: unfold str'_def)
    have adv: "lsn ls' = add64 (lsn ls) (n + F)"
              "buf_free ls' = add64 (buf_free ls) (n + F)"
      using p(3) by (simp_all add: completes_block_def ls'_def n_def F_def)
    have "block_offset ls' = (off + (n + F)) mod 512"
      using block_offset_advance [OF adv(2)] by (simp add: off_def)
    also have "off + (n + F) = T + F"
      using exact by simp
    finally have off': "block_offset ls' = 12"
      by (simp add: TF)
    have "off - 12 + n = T - 12"
      using exact off by simp
    then have "blocks_completed ls n = 1"
      using Tb by (simp add: k)
    then show ?thesis
      using Tb by (simp add: same adv off' T')
  next
    case under
    then have u: "block_offset ls + length str < trailer_offset ls"
      by (simp add: off_def n_def T_def)
    note p = pass_partial [OF aligned lo u]
    have same: "log_write_low str ls = ls'"
      using p(1) by (simp add: unfold str'_def)
    have adv: "lsn ls' = add64 (lsn ls) n"
              "buf_free ls' = add64 (buf_free ls) n"
      using p(5,6) by (simp_all add: ls'_def n_def)
    have "block_offset ls' = (off + n) mod 512"
      using block_offset_advance [OF adv(2)] by (simp add: off_def)
    then have off': "block_offset ls' = off + n"
      using under Tb by simp
    have "off - 12 + n < T - 12"
      using under off by simp
    then have "blocks_completed ls n = 0"
      by (simp add: k)
    then show ?thesis
      using under off by (simp add: same adv off' T')
  qed
  then show ?case
    by (simp add: n_def F_def LOG_BLOCK_HDR_SIZE_def)
qed

subsection \<open>The buffer after all passes\<close>

lemma mem_read_cong:
  "(\<And>x. a \<le> x \<Longrightarrow> x < a + n \<Longrightarrow> m x = m' x) \<Longrightarrow> mem_read m a n = mem_read m' a n"
  by (simp add: mem_read_def)

lemma mem_read_nth: "mem_read m a n = bs \<Longrightarrow> i < n \<Longrightarrow> m (a + i) = bs ! i"
  by (auto simp add: mem_read_def)

lemma trailer_framing_sum: "trailer_offset ls + framing_size ls = 524"
  by (simp add: trailer_offset_def framing_size_def OS_FILE_LOG_BLOCK_SIZE_def
                LOG_BLOCK_CHECKSUM_def LOG_BLOCK_KEY_def LOG_BLOCK_HDR_SIZE_def)

lemma current_block_aligned: "current_block ls mod 512 = 0"
  by (simp add: current_block_def ut_2pow_round_def OS_FILE_LOG_BLOCK_SIZE_def minus_mod_eq_mult_div)

lemma block_at:
  assumes aligned: "buf ls' mod OS_FILE_LOG_BLOCK_SIZE = 0"
      and addr: "buf ls' + buf_free ls' = b + c"
      and b: "b mod 512 = 0" and c: "c < 512"
  shows "current_block ls' = b" and "block_offset ls' = c"
proof -
  have m: "(b + c) mod 512 = c"
    using b c by (simp add: mod_add_left_eq [symmetric, of b])
  show "current_block ls' = b"
    by (simp add: current_block_def ut_2pow_round_def addr OS_FILE_LOG_BLOCK_SIZE_def m)
  have "block_offset ls' = (buf ls' + buf_free ls') mod 512"
    using aligned
    by (simp add: block_offset_def OS_FILE_LOG_BLOCK_SIZE_def mod_add_left_eq [symmetric, of "buf ls'"])
  then show "block_offset ls' = c"
    by (simp add: addr m)
qed

lemma over_step:
  assumes aligned: "buf ls mod OS_FILE_LOG_BLOCK_SIZE = 0"
      and lo: "LOG_BLOCK_HDR_SIZE \<le> block_offset ls"
      and hi: "block_offset ls < trailer_offset ls"
      and over: "trailer_offset ls < block_offset ls + length str"
      and room: "buf_free ls + length str + blocks_completed ls (length str) * framing_size ls
                 < 2 ^ 64"
  shows "log_write_low str ls =
           log_write_low (fst (log_write_low_part str ls)) (snd (log_write_low_part str ls))"
    and "fst (log_write_low_part str ls) = drop (trailer_offset ls - block_offset ls) str"
    and "0 < length (fst (log_write_low_part str ls))"
    and "buf_free (snd (log_write_low_part str ls)) =
           buf_free ls + (trailer_offset ls - block_offset ls) + framing_size ls"
    and "lsn (snd (log_write_low_part str ls)) = add64 (lsn ls) (524 - block_offset ls)"
    and "current_block (snd (log_write_low_part str ls)) = current_block ls + 512"
    and "block_offset (snd (log_write_low_part str ls)) = 12"
    and "blocks_completed ls (length str) =
           blocks_completed (snd (log_write_low_part str ls))
             (length (fst (log_write_low_part str ls))) + 1"
    and "buf_free (snd (log_write_low_part str ls)) + length (fst (log_write_low_part str ls)) +
           blocks_completed (snd (log_write_low_part str ls))
             (length (fst (log_write_low_part str ls))) *
           framing_size (snd (log_write_low_part str ls)) =
         buf_free ls + length str + blocks_completed ls (length str) * framing_size ls"
    and "mem_read (buf_mem (snd (log_write_low_part str ls))) (buf ls + buf_free ls)
           (trailer_offset ls - block_offset ls) =
         take (trailer_offset ls - block_offset ls) str"
    and "completes_block ls (trailer_offset ls - block_offset ls) (snd (log_write_low_part str ls))"
    and "x < current_block ls + 4 \<or> (current_block ls + 6 \<le> x \<and> x < current_block ls + 8) \<or>
         (current_block ls + 12 \<le> x \<and> x < buf ls + buf_free ls) \<or> current_block ls + 520 \<le> x \<Longrightarrow>
         buf_mem (snd (log_write_low_part str ls)) x = buf_mem ls x"
proof -
  define off where "off = block_offset ls"
  define T where "T = trailer_offset ls"
  define F where "F = framing_size ls"
  define n where "n = length str"
  define k where "k = blocks_completed ls n"
  define str' where "str' = fst (log_write_low_part str ls)"
  define ls' where "ls' = snd (log_write_low_part str ls)"
  have Tb: "500 \<le> T" "T < 512"
    using trailer_offset_lower [of ls] trailer_offset_bounds [of ls] by (simp_all add: T_def)
  have TF: "T + F = 524"
    using trailer_framing_sum [of ls] by (simp add: T_def F_def)
  have off: "12 \<le> off" "off < T" "T < off + n"
    using lo hi over by (simp_all add: off_def T_def n_def LOG_BLOCK_HDR_SIZE_def)
  have room': "buf_free ls + n + k * F < 2 ^ 64"
    using room by (simp add: n_def k_def F_def)
  have "off \<le> buf_free ls"
    by (simp add: off_def block_offset_def)
  then have "off + n < 2 ^ 64"
    using room' by simp
  then have "add64 (block_offset ls) (length str) = off + n"
    unfolding off_def n_def by (rule add64_small)
  then have nofit: "\<not> fits str ls"
    using off(3) by (simp add: fits_def block_offset_def T_def)
  have hi': "block_offset ls \<le> trailer_offset ls"
    using hi by simp
  note p = pass_over [OF aligned lo hi' nofit]
  show rest: "fst (log_write_low_part str ls) = drop (trailer_offset ls - block_offset ls) str"
    by (rule p(1))
  then have n': "length str' = n - (T - off)"
    by (simp add: str'_def n_def T_def off_def)
  then show pos: "0 < length (fst (log_write_low_part str ls))"
    using off by (simp add: str'_def)
  then show "log_write_low str ls =
           log_write_low (fst (log_write_low_part str ls)) (snd (log_write_low_part str ls))"
    by (subst log_write_low_unfold) simp
  have T': "trailer_offset ls' = T" and F': "framing_size ls' = F"
    by (simp_all add: ls'_def T_def F_def part_trailer_offset part_framing_size)
  have kdef: "k = (off - 12 + n) div (T - 12)"
    by (simp add: k_def blocks_completed_def off_def T_def LOG_BLOCK_HDR_SIZE_def)
  define q where "q = T - 12"
  define r where "r = n - (T - off)"
  have q: "0 < q"
    using Tb by (simp add: q_def)
  have "off - 12 + n = r + q"
    using off Tb by (simp add: q_def r_def)
  moreover have "(r + q) div q = r div q + 1"
    using q div_add_self2 [of q r] by simp
  ultimately have k1: "k = r div q + 1"
    by (simp add: kdef q_def)
  have "T - off + F \<le> n + k * F"
    using off by (simp add: k1)
  then have "buf_free ls + (T - off + F) < 2 ^ 64"
    using room' by simp
  then have plain: "add64 (buf_free ls) (T - off + F) = buf_free ls + (T - off + F)"
    by (rule add64_small)
  have adv: "lsn ls' = add64 (lsn ls) (T - off + F)"
            "buf_free ls' = add64 (buf_free ls) (T - off + F)"
    using p(3) by (simp_all add: completes_block_def ls'_def T_def off_def F_def)
  show bf: "buf_free (snd (log_write_low_part str ls)) =
           buf_free ls + (trailer_offset ls - block_offset ls) + framing_size ls"
    using adv(2) plain by (simp add: ls'_def T_def off_def F_def)
  have "T - off + F = 524 - off"
    using TF off by simp
  then show "lsn (snd (log_write_low_part str ls)) = add64 (lsn ls) (524 - block_offset ls)"
    using adv(1) by (simp add: ls'_def off_def)
  have aligned': "buf ls' mod OS_FILE_LOG_BLOCK_SIZE = 0"
    using aligned by (simp add: ls'_def part_buf)
  have "buf ls' + buf_free ls' = buf ls + buf_free ls + (T - off + F)"
    using bf by (simp add: ls'_def part_buf T_def off_def F_def)
  also have "\<dots> = current_block ls + off + (T - off + F)"
    using block_address [OF aligned] by (simp add: off_def)
  also have "\<dots> = (current_block ls + 512) + 12"
    using TF off by simp
  finally have addr': "buf ls' + buf_free ls' = (current_block ls + 512) + 12" .
  have al: "(current_block ls + 512) mod 512 = 0"
    using current_block_aligned [of ls] by simp
  note at = block_at [OF aligned' addr' al]
  show cb: "current_block (snd (log_write_low_part str ls)) = current_block ls + 512"
    using at(1) by (simp add: ls'_def)
  show off': "block_offset (snd (log_write_low_part str ls)) = 12"
    using at(2) by (simp add: ls'_def)
  have k': "blocks_completed ls' (length str') = r div q"
    using off' by (simp add: blocks_completed_def ls'_def [symmetric] T' LOG_BLOCK_HDR_SIZE_def
                             n' r_def q_def)
  show "blocks_completed ls (length str) =
           blocks_completed (snd (log_write_low_part str ls))
             (length (fst (log_write_low_part str ls))) + 1"
    using k1 k' by (simp add: k_def n_def ls'_def str'_def)
  have "buf_free ls' + length str' + blocks_completed ls' (length str') * framing_size ls' =
        buf_free ls + (T - off + F) + (n - (T - off)) + (r div q) * F"
    using adv(2) plain unfolding k' F' by (simp add: n')
  also have "\<dots> = buf_free ls + n + k * F"
    using off by (simp add: k1)
  finally show "buf_free (snd (log_write_low_part str ls)) + length (fst (log_write_low_part str ls)) +
           blocks_completed (snd (log_write_low_part str ls))
             (length (fst (log_write_low_part str ls))) *
           framing_size (snd (log_write_low_part str ls)) =
         buf_free ls + length str + blocks_completed ls (length str) * framing_size ls"
    by (simp add: ls'_def str'_def n_def k_def F_def)
  show "mem_read (buf_mem (snd (log_write_low_part str ls))) (buf ls + buf_free ls)
           (trailer_offset ls - block_offset ls) =
         take (trailer_offset ls - block_offset ls) str"
    by (rule p(2))
  show "completes_block ls (trailer_offset ls - block_offset ls) (snd (log_write_low_part str ls))"
    by (rule p(3))
  show "buf_mem (snd (log_write_low_part str ls)) x = buf_mem ls x"
    if "x < current_block ls + 4 \<or> (current_block ls + 6 \<le> x \<and> x < current_block ls + 8) \<or>
        (current_block ls + 12 \<le> x \<and> x < buf ls + buf_free ls) \<or> current_block ls + 520 \<le> x"
    using that by (rule p(5))
qed

lemma over_step_pre:
  assumes aligned: "buf ls mod OS_FILE_LOG_BLOCK_SIZE = 0"
      and lo: "LOG_BLOCK_HDR_SIZE \<le> block_offset ls"
      and hi: "block_offset ls < trailer_offset ls"
      and over: "trailer_offset ls < block_offset ls + length str"
      and room: "buf_free ls + length str + blocks_completed ls (length str) * framing_size ls
                 < 2 ^ 64"
  shows "buf (snd (log_write_low_part str ls)) mod OS_FILE_LOG_BLOCK_SIZE = 0"
    and "LOG_BLOCK_HDR_SIZE \<le> block_offset (snd (log_write_low_part str ls))"
    and "block_offset (snd (log_write_low_part str ls)) <
           trailer_offset (snd (log_write_low_part str ls))"
    and "buf_free (snd (log_write_low_part str ls)) + length (fst (log_write_low_part str ls)) +
           blocks_completed (snd (log_write_low_part str ls))
             (length (fst (log_write_low_part str ls))) *
           framing_size (snd (log_write_low_part str ls)) < 2 ^ 64"
proof -
  note s = over_step [OF aligned lo hi over room]
  show "buf (snd (log_write_low_part str ls)) mod OS_FILE_LOG_BLOCK_SIZE = 0"
    using aligned by (simp add: part_buf)
  show "LOG_BLOCK_HDR_SIZE \<le> block_offset (snd (log_write_low_part str ls))"
    by (simp add: s(7) LOG_BLOCK_HDR_SIZE_def)
  show "block_offset (snd (log_write_low_part str ls)) <
           trailer_offset (snd (log_write_low_part str ls))"
    using trailer_offset_lower [of ls] by (simp add: s(7) part_trailer_offset)
  show "buf_free (snd (log_write_low_part str ls)) + length (fst (log_write_low_part str ls)) +
           blocks_completed (snd (log_write_low_part str ls))
             (length (fst (log_write_low_part str ls))) *
           framing_size (snd (log_write_low_part str ls)) < 2 ^ 64"
    unfolding s(9) by (rule room)
qed

lemma fit_step:
  assumes aligned: "buf ls mod OS_FILE_LOG_BLOCK_SIZE = 0"
      and lo: "LOG_BLOCK_HDR_SIZE \<le> block_offset ls"
      and fit: "block_offset ls + length str \<le> trailer_offset ls"
  shows "log_write_low str ls = snd (log_write_low_part str ls)"
    and "blocks_completed ls (length str) =
           (if block_offset ls + length str = trailer_offset ls then 1 else 0)"
    and "i < length str \<Longrightarrow> blocks_completed ls i = 0"
proof -
  have Tb: "500 \<le> trailer_offset ls"
    by (rule trailer_offset_lower)
  have "fst (log_write_low_part str ls) = []"
    using pass_exact(1) [OF aligned lo] pass_partial(1) [OF aligned lo] fit
    by (cases "block_offset ls + length str = trailer_offset ls") simp_all
  then show "log_write_low str ls = snd (log_write_low_part str ls)"
    by (subst log_write_low_unfold) simp
  define q where "q = trailer_offset ls - 12"
  define m where "m = block_offset ls - 12 + length str"
  have q: "0 < q"
    using Tb by (simp add: q_def)
  have m: "m \<le> q" "m = q \<longleftrightarrow> block_offset ls + length str = trailer_offset ls"
    using lo fit Tb by (auto simp add: m_def q_def LOG_BLOCK_HDR_SIZE_def)
  have "m div q = (if m = q then 1 else 0)"
    using m(1) q by (cases "m = q") simp_all
  then show "blocks_completed ls (length str) =
           (if block_offset ls + length str = trailer_offset ls then 1 else 0)"
    using m(2) by (simp add: blocks_completed_def LOG_BLOCK_HDR_SIZE_def m_def q_def)
  show "blocks_completed ls i = 0" if "i < length str"
  proof -
    have "block_offset ls - 12 + i < q"
      using that lo fit Tb by (simp add: q_def LOG_BLOCK_HDR_SIZE_def)
    then show ?thesis
      by (simp add: blocks_completed_def LOG_BLOCK_HDR_SIZE_def q_def)
  qed
qed

lemma log_write_low_frame:
  assumes "buf ls mod OS_FILE_LOG_BLOCK_SIZE = 0"
      and "LOG_BLOCK_HDR_SIZE \<le> block_offset ls"
      and "block_offset ls < trailer_offset ls"
      and "buf_free ls + length str + blocks_completed ls (length str) * framing_size ls < 2 ^ 64"
      and "x < buf ls + buf_free ls"
      and "\<not> (current_block ls + 4 \<le> x \<and> x < current_block ls + 6)"
      and "\<not> (current_block ls + 8 \<le> x \<and> x < current_block ls + 12)"
  shows "buf_mem (log_write_low str ls) x = buf_mem ls x"
  using assms
proof (induction str ls rule: log_write_low.induct)
  case (1 str ls)
  note aligned = "1.prems"(1) and lo = "1.prems"(2) and hi = "1.prems"(3) and room = "1.prems"(4)
   and x = "1.prems"(5,6,7)
  note addr = block_address [OF aligned]
  have region: "x < current_block ls + 4 \<or> (current_block ls + 6 \<le> x \<and> x < current_block ls + 8) \<or>
         (current_block ls + 12 \<le> x \<and> x < buf ls + buf_free ls) \<or> current_block ls + 520 \<le> x"
    using x by linarith
  show ?case
  proof (cases "trailer_offset ls < block_offset ls + length str")
    case True
    note s = over_step [OF aligned lo hi True room]
    note pre = over_step_pre [OF aligned lo hi True room]
    have below: "x < current_block ls + 512"
      using x(1) addr hi trailer_offset_bounds [of ls] by simp
    have x': "x < buf (snd (log_write_low_part str ls)) + buf_free (snd (log_write_low_part str ls))"
             "\<not> (current_block (snd (log_write_low_part str ls)) + 4 \<le> x \<and>
                 x < current_block (snd (log_write_low_part str ls)) + 6)"
             "\<not> (current_block (snd (log_write_low_part str ls)) + 8 \<le> x \<and>
                 x < current_block (snd (log_write_low_part str ls)) + 12)"
      using below x(1) by (simp_all add: s(6) s(4) part_buf)
    have "buf_mem (log_write_low (fst (log_write_low_part str ls)) (snd (log_write_low_part str ls))) x =
          buf_mem (snd (log_write_low_part str ls)) x"
      by (rule "1.IH" [OF prod.collapse s(3) pre x'])
    then show ?thesis
      using s(12) [OF region] by (simp add: s(1) [symmetric])
  next
    case False
    then have fit: "block_offset ls + length str \<le> trailer_offset ls"
      by simp
    note f = fit_step [OF aligned lo fit]
    show ?thesis
    proof (cases "block_offset ls + length str = trailer_offset ls")
      case True
      show ?thesis
        unfolding f(1) using region by (rule pass_exact(4) [OF aligned lo True])
    next
      case False
      with fit have under: "block_offset ls + length str < trailer_offset ls"
        by simp
      show ?thesis
        unfolding f(1) using region by (rule pass_partial(7) [OF aligned lo under])
    qed
  qed
qed

lemma later_frame:
  assumes aligned: "buf ls mod OS_FILE_LOG_BLOCK_SIZE = 0"
      and lo: "LOG_BLOCK_HDR_SIZE \<le> block_offset ls"
      and hi: "block_offset ls < trailer_offset ls"
      and over: "trailer_offset ls < block_offset ls + length str"
      and room: "buf_free ls + length str + blocks_completed ls (length str) * framing_size ls
                 < 2 ^ 64"
      and x: "x < current_block ls + 516 \<or> (current_block ls + 518 \<le> x \<and> x < current_block ls + 520)"
  shows "buf_mem (log_write_low str ls) x = buf_mem (snd (log_write_low_part str ls)) x"
proof -
  note s = over_step [OF aligned lo hi over room]
  note pre = over_step_pre [OF aligned lo hi over room]
  have "buf (snd (log_write_low_part str ls)) + buf_free (snd (log_write_low_part str ls)) =
        current_block (snd (log_write_low_part str ls)) +
        block_offset (snd (log_write_low_part str ls))"
    by (rule block_address [OF pre(1)])
  then have a': "buf (snd (log_write_low_part str ls)) + buf_free (snd (log_write_low_part str ls)) =
                 current_block ls + 524"
    by (simp add: s(6) s(7))
  have x': "x < buf (snd (log_write_low_part str ls)) + buf_free (snd (log_write_low_part str ls))"
           "\<not> (current_block (snd (log_write_low_part str ls)) + 4 \<le> x \<and>
               x < current_block (snd (log_write_low_part str ls)) + 6)"
           "\<not> (current_block (snd (log_write_low_part str ls)) + 8 \<le> x \<and>
               x < current_block (snd (log_write_low_part str ls)) + 12)"
    using x unfolding a' s(6) by linarith+
  show ?thesis
    unfolding s(1) by (rule log_write_low_frame [OF pre x'])
qed

lemma log_write_low_payload:
  assumes "buf ls mod OS_FILE_LOG_BLOCK_SIZE = 0"
      and "LOG_BLOCK_HDR_SIZE \<le> block_offset ls"
      and "block_offset ls < trailer_offset ls"
      and "buf_free ls + length str + blocks_completed ls (length str) * framing_size ls < 2 ^ 64"
      and "i < length str"
  shows "buf_mem (log_write_low str ls) (payload_address ls i) = str ! i"
  using assms
proof (induction str ls arbitrary: i rule: log_write_low.induct)
  case (1 str ls)
  note aligned = "1.prems"(1) and lo = "1.prems"(2) and hi = "1.prems"(3) and room = "1.prems"(4)
   and i = "1.prems"(5)
  note addr = block_address [OF aligned]
  define off where "off = block_offset ls"
  define T where "T = trailer_offset ls"
  define F where "F = framing_size ls"
  define q where "q = T - 12"
  have Tb: "500 \<le> T" "T < 512"
    using trailer_offset_lower [of ls] trailer_offset_bounds [of ls] by (simp_all add: T_def)
  have off: "12 \<le> off" "off < T"
    using lo hi by (simp_all add: off_def T_def LOG_BLOCK_HDR_SIZE_def)
  have q: "0 < q"
    using Tb by (simp add: q_def)
  have bc: "blocks_completed ls m = (off - 12 + m) div q" for m
    by (simp add: blocks_completed_def off_def T_def q_def LOG_BLOCK_HDR_SIZE_def)
  show ?case
  proof (cases "trailer_offset ls < block_offset ls + length str")
    case True
    note s = over_step [OF aligned lo hi True room]
    note pre = over_step_pre [OF aligned lo hi True room]
    define str' where "str' = fst (log_write_low_part str ls)"
    define ls' where "ls' = snd (log_write_low_part str ls)"
    have over: "T < off + length str"
      using True by (simp add: T_def off_def)
    show ?thesis
    proof (cases "i < T - off")
      case True
      have "off - 12 + i < q"
        using True off by (simp add: q_def)
      then have pa: "payload_address ls i = buf ls + buf_free ls + i"
        by (simp add: payload_address_def bc)
      have "buf_mem ls' (buf ls + buf_free ls + i) = take (T - off) str ! i"
        using s(10) True unfolding ls'_def T_def off_def by (rule mem_read_nth)
      then have first: "buf_mem ls' (buf ls + buf_free ls + i) = str ! i"
        using True by simp
      have "buf ls + buf_free ls + i < current_block ls + 516"
        using True off Tb unfolding addr off_def [symmetric] by simp
      then have "buf_mem (log_write_low str ls) (buf ls + buf_free ls + i) =
                 buf_mem ls' (buf ls + buf_free ls + i)"
        unfolding ls'_def by (intro later_frame [OF aligned lo hi \<open>trailer_offset ls < block_offset ls + length str\<close> room] disjI1)
      then show ?thesis
        by (simp add: pa first)
    next
      case False
      define i' where "i' = i - (T - off)"
      have ii: "i = (T - off) + i'"
        using False by (simp add: i'_def)
      have rest: "str' = drop (T - off) str"
        using s(2) by (simp add: str'_def T_def off_def)
      have i': "i' < length str'"
        using i False by (simp add: rest i'_def)
      have ih: "buf_mem (log_write_low str' ls') (payload_address ls' i') = str' ! i'"
        unfolding str'_def ls'_def
        by (rule "1.IH" [OF prod.collapse s(3) pre i' [unfolded str'_def]])
      have nth: "str' ! i' = str ! i"
        using i by (simp add: rest ii)
      have "blocks_completed ls' i' = i' div q"
        by (simp add: blocks_completed_def ls'_def s(7) part_trailer_offset
                      LOG_BLOCK_HDR_SIZE_def q_def T_def)
      moreover have "off - 12 + i = i' + q"
        using off Tb by (simp add: ii q_def)
      moreover have "(i' + q) div q = i' div q + 1"
        using q div_add_self2 [of q i'] by simp
      ultimately have k: "blocks_completed ls i = blocks_completed ls' i' + 1"
        by (simp add: bc)
      have "payload_address ls' i' =
            buf ls + (buf_free ls + (T - off) + F) + i' + blocks_completed ls' i' * F"
        by (simp add: payload_address_def ls'_def part_buf part_framing_size s(4) T_def off_def F_def)
      also have "\<dots> = buf ls + buf_free ls + i + blocks_completed ls i * F"
        unfolding k using False by (simp add: i'_def)
      finally have pa: "payload_address ls' i' = payload_address ls i"
        by (simp add: payload_address_def F_def)
      show ?thesis
        using ih by (simp add: s(1) str'_def [symmetric] ls'_def [symmetric] pa nth)
    qed
  next
    case False
    then have fit: "block_offset ls + length str \<le> trailer_offset ls"
      by simp
    note f = fit_step [OF aligned lo fit]
    have pa: "payload_address ls i = buf ls + buf_free ls + i"
      using f(3) [OF i] by (simp add: payload_address_def)
    have "mem_read (buf_mem (snd (log_write_low_part str ls))) (buf ls + buf_free ls) (length str) =
          str"
      using pass_exact(2) [OF aligned lo] pass_partial(2) [OF aligned lo] fit
      by (cases "block_offset ls + length str = trailer_offset ls") simp_all
    then have "buf_mem (snd (log_write_low_part str ls)) (buf ls + buf_free ls + i) = str ! i"
      using i by (rule mem_read_nth)
    then show ?thesis
      by (simp add: f(1) pa)
  qed
qed

lemma log_write_low_completed:
  assumes "buf ls mod OS_FILE_LOG_BLOCK_SIZE = 0"
      and "LOG_BLOCK_HDR_SIZE \<le> block_offset ls"
      and "block_offset ls < trailer_offset ls"
      and "buf_free ls + length str + blocks_completed ls (length str) * framing_size ls < 2 ^ 64"
      and "j < blocks_completed ls (length str)"
  shows "log_block_get_data_len (buf_mem (log_write_low str ls)) (current_block ls + 512 * j) = 512 \<and>
         log_block_get_checkpoint_no (buf_mem (log_write_low str ls)) (current_block ls + 512 * j) =
           next_checkpoint_no ls mod 2 ^ 32"
  using assms
proof (induction str ls arbitrary: j rule: log_write_low.induct)
  case (1 str ls)
  note aligned = "1.prems"(1) and lo = "1.prems"(2) and hi = "1.prems"(3) and room = "1.prems"(4)
   and j = "1.prems"(5)
  show ?case
  proof (cases "trailer_offset ls < block_offset ls + length str")
    case True
    note s = over_step [OF aligned lo hi True room]
    note pre = over_step_pre [OF aligned lo hi True room]
    define str' where "str' = fst (log_write_low_part str ls)"
    define ls' where "ls' = snd (log_write_low_part str ls)"
    show ?thesis
    proof (cases "j = 0")
      case True
      have eq: "buf_mem (log_write_low str ls) x = buf_mem ls' x" if "x < current_block ls + 516" for x
        unfolding ls'_def using that
        by (intro later_frame [OF aligned lo hi \<open>trailer_offset ls < block_offset ls + length str\<close> room] disjI1)
      have dl: "log_block_get_data_len (buf_mem (log_write_low str ls)) (current_block ls) =
                log_block_get_data_len (buf_mem ls') (current_block ls)"
        unfolding log_block_get_data_len_def LOG_BLOCK_HDR_DATA_LEN_def
        by (intro arg_cong [where f = mach_read_from] mem_read_cong eq) simp
      have ck: "log_block_get_checkpoint_no (buf_mem (log_write_low str ls)) (current_block ls) =
                log_block_get_checkpoint_no (buf_mem ls') (current_block ls)"
        unfolding log_block_get_checkpoint_no_def LOG_BLOCK_CHECKPOINT_NO_def
        by (intro arg_cong [where f = mach_read_from] mem_read_cong eq) simp
      have "log_block_get_data_len (buf_mem ls') (current_block ls) = 512 \<and>
            log_block_get_checkpoint_no (buf_mem ls') (current_block ls) =
              next_checkpoint_no ls mod 2 ^ 32"
        using s(11) by (simp add: completes_block_def ls'_def OS_FILE_LOG_BLOCK_SIZE_def)
      then show ?thesis
        by (simp add: True dl ck)
    next
      case False
      have j': "j - 1 < blocks_completed ls' (length str')"
        using j False unfolding s(8) by (simp add: ls'_def str'_def)
      have ih: "log_block_get_data_len (buf_mem (log_write_low str' ls'))
                  (current_block ls' + 512 * (j - 1)) = 512 \<and>
                log_block_get_checkpoint_no (buf_mem (log_write_low str' ls'))
                  (current_block ls' + 512 * (j - 1)) = next_checkpoint_no ls' mod 2 ^ 32"
        unfolding str'_def ls'_def
        by (rule "1.IH" [OF prod.collapse s(3) pre j' [unfolded str'_def ls'_def]])
      have "current_block ls' + 512 * (j - 1) = current_block ls + 512 * j"
        using False by (simp add: ls'_def s(6))
      then show ?thesis
        using ih
        by (simp add: s(1) str'_def [symmetric] ls'_def [symmetric])
           (simp add: ls'_def part_next_checkpoint_no)
    qed
  next
    case False
    then have fit: "block_offset ls + length str \<le> trailer_offset ls"
      by simp
    note f = fit_step [OF aligned lo fit]
    have exact: "block_offset ls + length str = trailer_offset ls" and j0: "j = 0"
      using j unfolding f(2) by (simp_all split: if_splits)
    show ?thesis
      using pass_exact(3) [OF aligned lo exact]
      by (simp add: f(1) j0 completes_block_def OS_FILE_LOG_BLOCK_SIZE_def)
  qed
qed

lemma log_write_low_headers:
  assumes "buf ls mod OS_FILE_LOG_BLOCK_SIZE = 0"
      and "LOG_BLOCK_HDR_SIZE \<le> block_offset ls"
      and "block_offset ls < trailer_offset ls"
      and "buf_free ls + length str + blocks_completed ls (length str) * framing_size ls < 2 ^ 64"
      and "1 \<le> j" and "j \<le> blocks_completed ls (length str)"
  shows "mach_read_from (mem_read (buf_mem (log_write_low str ls)) (current_block ls + 512 * j) 4) =
           log_block_convert_lsn_to_no (add64 (lsn ls) (12 + 512 * j - block_offset ls)) \<and>
         log_block_get_first_rec_group (buf_mem (log_write_low str ls))
           (current_block ls + 512 * j) = 0"
  using assms
proof (induction str ls arbitrary: j rule: log_write_low.induct)
  case (1 str ls)
  note aligned = "1.prems"(1) and lo = "1.prems"(2) and hi = "1.prems"(3) and room = "1.prems"(4)
   and j = "1.prems"(5,6)
  have off: "block_offset ls < 512"
    using hi trailer_offset_bounds [of ls] by simp
  show ?case
  proof (cases "trailer_offset ls < block_offset ls + length str")
    case True
    note s = over_step [OF aligned lo hi True room]
    note pre = over_step_pre [OF aligned lo hi True room]
    define str' where "str' = fst (log_write_low_part str ls)"
    define ls' where "ls' = snd (log_write_low_part str ls)"
    show ?thesis
    proof (cases "j = 1")
      case True
      have eq: "buf_mem (log_write_low str ls) x = buf_mem ls' x"
        if "x < current_block ls + 516 \<or> (current_block ls + 518 \<le> x \<and> x < current_block ls + 520)"
        for x
        unfolding ls'_def using that
        by (rule later_frame [OF aligned lo hi \<open>trailer_offset ls < block_offset ls + length str\<close> room])
      have no: "mem_read (buf_mem (log_write_low str ls)) (current_block ls + 512) 4 =
                mem_read (buf_mem ls') (current_block ls + 512) 4"
        by (intro mem_read_cong eq) simp
      have fr: "log_block_get_first_rec_group (buf_mem (log_write_low str ls)) (current_block ls + 512) =
                log_block_get_first_rec_group (buf_mem ls') (current_block ls + 512)"
        unfolding log_block_get_first_rec_group_def LOG_BLOCK_FIRST_REC_GROUP_def
        by (intro arg_cong [where f = mach_read_from] mem_read_cong eq) simp
      have "12 + 512 - block_offset ls = 524 - block_offset ls"
        by simp
      then show ?thesis
        using s(11) unfolding True
        by (simp add: no fr completes_block_def ls'_def [symmetric] OS_FILE_LOG_BLOCK_SIZE_def
                      LOG_BLOCK_HDR_NO_def)
           (simp add: ls'_def s(5))
    next
      case False
      have j': "1 \<le> j - 1" "j - 1 \<le> blocks_completed ls' (length str')"
        using j False unfolding s(8) by (simp_all add: ls'_def str'_def)
      have ih: "mach_read_from (mem_read (buf_mem (log_write_low str' ls'))
                   (current_block ls' + 512 * (j - 1)) 4) =
                  log_block_convert_lsn_to_no
                    (add64 (lsn ls') (12 + 512 * (j - 1) - block_offset ls')) \<and>
                log_block_get_first_rec_group (buf_mem (log_write_low str' ls'))
                  (current_block ls' + 512 * (j - 1)) = 0"
        unfolding str'_def ls'_def
        by (rule "1.IH" [OF prod.collapse s(3) pre j' [unfolded str'_def ls'_def]])
      have cb: "current_block ls' + 512 * (j - 1) = current_block ls + 512 * j"
        using j(1) by (simp add: ls'_def s(6))
      have "524 - block_offset ls + (12 + 512 * (j - 1) - 12) = 12 + 512 * j - block_offset ls"
        using j(1) off by simp
      then have l: "add64 (lsn ls') (12 + 512 * (j - 1) - block_offset ls') =
                 add64 (lsn ls) (12 + 512 * j - block_offset ls)"
        by (simp add: ls'_def s(5) s(7) add64_assoc)
      show ?thesis
        using ih unfolding cb l by (simp add: s(1) str'_def [symmetric] ls'_def [symmetric])
    qed
  next
    case False
    then have fit: "block_offset ls + length str \<le> trailer_offset ls"
      by simp
    note f = fit_step [OF aligned lo fit]
    have exact: "block_offset ls + length str = trailer_offset ls" and j1: "j = 1"
      using j unfolding f(2) by (simp_all split: if_splits)
    have "length str + framing_size ls = 12 + 512 - block_offset ls"
      using exact trailer_framing_sum [of ls] by simp
    then show ?thesis
      using pass_exact(3) [OF aligned lo exact]
      by (simp add: f(1) j1 completes_block_def OS_FILE_LOG_BLOCK_SIZE_def LOG_BLOCK_HDR_NO_def)
  qed
qed

lemma log_write_low_current:
  assumes "buf ls mod OS_FILE_LOG_BLOCK_SIZE = 0"
      and "LOG_BLOCK_HDR_SIZE \<le> block_offset ls"
      and "block_offset ls < trailer_offset ls"
      and "buf_free ls + length str + blocks_completed ls (length str) * framing_size ls < 2 ^ 64"
  shows "current_block (log_write_low str ls) =
           current_block ls + 512 * blocks_completed ls (length str) \<and>
         log_block_get_data_len (buf_mem (log_write_low str ls))
           (current_block (log_write_low str ls)) = block_offset (log_write_low str ls) \<and>
         log_block_get_checkpoint_no (buf_mem (log_write_low str ls))
           (current_block (log_write_low str ls)) =
           log_block_get_checkpoint_no (buf_mem ls) (current_block (log_write_low str ls))"
  using assms
proof (induction str ls rule: log_write_low.induct)
  case (1 str ls)
  note aligned = "1.prems"(1) and lo = "1.prems"(2) and hi = "1.prems"(3) and room = "1.prems"(4)
  note addr = block_address [OF aligned]
  have Tb: "500 \<le> trailer_offset ls" "trailer_offset ls < 512"
    using trailer_offset_lower [of ls] trailer_offset_bounds [of ls] by simp_all
  have lo': "12 \<le> block_offset ls"
    using lo by (simp add: LOG_BLOCK_HDR_SIZE_def)
  show ?case
  proof (cases "trailer_offset ls < block_offset ls + length str")
    case True
    note s = over_step [OF aligned lo hi True room]
    note pre = over_step_pre [OF aligned lo hi True room]
    define str' where "str' = fst (log_write_low_part str ls)"
    define ls' where "ls' = snd (log_write_low_part str ls)"
    define r where "r = log_write_low str ls"
    have same: "log_write_low str' ls' = r"
      by (simp add: r_def s(1) str'_def ls'_def)
    have ih: "current_block (log_write_low str' ls') =
                current_block ls' + 512 * blocks_completed ls' (length str') \<and>
              log_block_get_data_len (buf_mem (log_write_low str' ls'))
                (current_block (log_write_low str' ls')) = block_offset (log_write_low str' ls') \<and>
              log_block_get_checkpoint_no (buf_mem (log_write_low str' ls'))
                (current_block (log_write_low str' ls')) =
                log_block_get_checkpoint_no (buf_mem ls') (current_block (log_write_low str' ls'))"
      unfolding str'_def ls'_def by (rule "1.IH" [OF prod.collapse s(3) pre])
    have cb: "current_block r = current_block ls + 512 * blocks_completed ls (length str)"
      using ih unfolding same s(8) by (simp add: ls'_def str'_def s(6))
    have "current_block ls + 520 \<le> current_block r + 8"
      unfolding cb s(8) by simp
    then have eq: "buf_mem ls' x = buf_mem ls x" if "current_block r + 8 \<le> x" for x
      unfolding ls'_def using that by (intro s(12) disjI2) simp
    have ck: "log_block_get_checkpoint_no (buf_mem ls') (current_block r) =
              log_block_get_checkpoint_no (buf_mem ls) (current_block r)"
      unfolding log_block_get_checkpoint_no_def LOG_BLOCK_CHECKPOINT_NO_def
      by (intro arg_cong [where f = mach_read_from] mem_read_cong eq) simp
    have dl: "log_block_get_data_len (buf_mem r) (current_block r) = block_offset r"
      using ih unfolding same by blast
    have "log_block_get_checkpoint_no (buf_mem r) (current_block r) =
          log_block_get_checkpoint_no (buf_mem ls') (current_block r)"
      using ih unfolding same by blast
    then have ck': "log_block_get_checkpoint_no (buf_mem r) (current_block r) =
                    log_block_get_checkpoint_no (buf_mem ls) (current_block r)"
      unfolding ck .
    show ?thesis
      unfolding r_def [symmetric] using cb dl ck' by (intro conjI)
  next
    case False
    then have fit: "block_offset ls + length str \<le> trailer_offset ls"
      by simp
    note f = fit_step [OF aligned lo fit]
    define ls' where "ls' = snd (log_write_low_part str ls)"
    have aligned': "buf ls' mod OS_FILE_LOG_BLOCK_SIZE = 0"
      using aligned by (simp add: ls'_def part_buf)
    have al: "(current_block ls + 512) mod 512 = 0" "current_block ls mod 512 = 0"
      using current_block_aligned [of ls] by simp_all
    show ?thesis
    proof (cases "block_offset ls + length str = trailer_offset ls")
      case True
      note p = pass_exact [OF aligned lo True]
      have k: "blocks_completed ls (length str) = 1"
        using True by (simp add: f(2))
      have "buf_free ls + (length str + framing_size ls) < 2 ^ 64"
        using room by (simp add: k)
      then have plain: "add64 (buf_free ls) (length str + framing_size ls) =
                        buf_free ls + (length str + framing_size ls)"
        by (rule add64_small)
      have bf: "buf_free ls' = buf_free ls + (length str + framing_size ls)"
        using p(3) plain by (simp add: completes_block_def ls'_def)
      have "buf ls' + buf_free ls' = buf ls + buf_free ls + (length str + framing_size ls)"
        by (simp add: bf) (simp add: ls'_def part_buf)
      also have "\<dots> = current_block ls + (block_offset ls + length str + framing_size ls)"
        by (simp add: addr)
      also have "\<dots> = (current_block ls + 512) + 12"
        using trailer_framing_sum [of ls] by (simp add: True)
      finally have addr': "buf ls' + buf_free ls' = (current_block ls + 512) + 12" .
      note at = block_at [OF aligned' addr' al(1)]
      have eq: "buf_mem ls' x = buf_mem ls x" if "current_block ls + 520 \<le> x" for x
        unfolding ls'_def using that by (intro p(4) disjI2) simp
      have ck: "log_block_get_checkpoint_no (buf_mem ls') (current_block ls + 512) =
                log_block_get_checkpoint_no (buf_mem ls) (current_block ls + 512)"
        unfolding log_block_get_checkpoint_no_def LOG_BLOCK_CHECKPOINT_NO_def
        by (intro arg_cong [where f = mach_read_from] mem_read_cong eq) simp
      have dl: "log_block_get_data_len (buf_mem ls') (current_block ls + 512) = 12"
        using p(3)
        by (simp add: completes_block_def ls'_def OS_FILE_LOG_BLOCK_SIZE_def LOG_BLOCK_HDR_SIZE_def)
      show ?thesis
        using at ck dl by (simp add: f(1) ls'_def [symmetric] k)
    next
      case False
      with fit have under: "block_offset ls + length str < trailer_offset ls"
        by simp
      note p = pass_partial [OF aligned lo under]
      have k: "blocks_completed ls (length str) = 0"
        using False by (simp add: f(2))
      have "buf_free ls + length str < 2 ^ 64"
        using room by (simp add: k)
      then have plain: "add64 (buf_free ls) (length str) = buf_free ls + length str"
        by (rule add64_small)
      have bf: "buf_free ls' = buf_free ls + length str"
        using p(6) plain by (simp add: ls'_def)
      have "buf ls' + buf_free ls' = buf ls + buf_free ls + length str"
        by (simp add: bf) (simp add: ls'_def part_buf)
      then have addr': "buf ls' + buf_free ls' = current_block ls + (block_offset ls + length str)"
        by (simp add: addr)
      have c: "block_offset ls + length str < 512"
        using under Tb by simp
      note at = block_at [OF aligned' addr' al(2) c]
      show ?thesis
        using at p(3,4) by (simp add: f(1) ls'_def [symmetric] k)
    qed
  qed
qed

text \<open>
  Claim C5. The log buffer is aligned to blocks, \<^verbatim>\<open>buf_free\<close> stands between the header
  and the trailer of its block, and the string is shorter than \<open>2^63\<close> bytes. A pass for
  a string that does not fit copies the first \<open>trailer_offset - buf_free mod 512\<close> bytes
  to \<^verbatim>\<open>buf_free\<close> and keeps the rest for the next pass. A pass that fills the block to the
  trailer, with a part of the string or with all of it, sets the block's data length to 512
  and its checkpoint number to \<^verbatim>\<open>next_checkpoint_no\<close>, moves the LSN and \<^verbatim>\<open>buf_free\<close> over
  the bytes copied and the framing, and writes the header of an empty block, numbered by
  the new LSN, at the start of the next block. A pass that leaves the block partly filled
  sets the data length to the offset reached, leaves the checkpoint number of the block
  as it was, and moves the LSN and \<^verbatim>\<open>buf_free\<close> over the bytes copied only. Over all
  passes the LSN and \<^verbatim>\<open>buf_free\<close> move by the length of the string and one framing for
  each block completed, and \<^verbatim>\<open>buf_free\<close> again stands between header and trailer.

  \<^verbatim>\<open>log_write_low\<close> is the first pass if that consumed the string, and otherwise
  \<^verbatim>\<open>log_write_low\<close> of the rest from the state the first pass left. As long as \<^verbatim>\<open>buf_free\<close>
  stays within 64 bits, the buffer that \<^verbatim>\<open>log_write_low\<close> returns is this: what stood before
  \<^verbatim>\<open>buf_free\<close> is as it was, but for the data length and the checkpoint number of the
  current block; byte \<open>i\<close> of the string is at \<open>payload_address ls i\<close>; every block
  completed has data length 512 and the checkpoint number \<^verbatim>\<open>next_checkpoint_no\<close>; every
  block begun has the block number of the LSN at which its data starts and no first
  record group; and the block in which \<^verbatim>\<open>buf_free\<close> ends has the offset of \<^verbatim>\<open>buf_free\<close> as
  its data length and the checkpoint number it had before the call.
\<close>

theorem log_write_low_blocks:
  assumes aligned: "buf ls mod OS_FILE_LOG_BLOCK_SIZE = 0"
      and lo: "LOG_BLOCK_HDR_SIZE \<le> block_offset ls"
      and hi: "block_offset ls < trailer_offset ls"
      and short: "length str < 2 ^ 63"
  shows "(trailer_offset ls < block_offset ls + length str \<longrightarrow>
            fst (log_write_low_part str ls) = drop (trailer_offset ls - block_offset ls) str \<and>
            mem_read (buf_mem (snd (log_write_low_part str ls))) (buf ls + buf_free ls)
              (trailer_offset ls - block_offset ls) =
              take (trailer_offset ls - block_offset ls) str \<and>
            completes_block ls (trailer_offset ls - block_offset ls)
              (snd (log_write_low_part str ls))) \<and>
         (block_offset ls + length str = trailer_offset ls \<longrightarrow>
            fst (log_write_low_part str ls) = [] \<and>
            mem_read (buf_mem (snd (log_write_low_part str ls))) (buf ls + buf_free ls)
              (length str) = str \<and>
            completes_block ls (length str) (snd (log_write_low_part str ls))) \<and>
         (block_offset ls + length str < trailer_offset ls \<longrightarrow>
            fst (log_write_low_part str ls) = [] \<and>
            mem_read (buf_mem (snd (log_write_low_part str ls))) (buf ls + buf_free ls)
              (length str) = str \<and>
            log_block_get_data_len (buf_mem (snd (log_write_low_part str ls))) (current_block ls) =
              block_offset ls + length str \<and>
            log_block_get_checkpoint_no (buf_mem (snd (log_write_low_part str ls)))
              (current_block ls) =
              log_block_get_checkpoint_no (buf_mem ls) (current_block ls) \<and>
            lsn (snd (log_write_low_part str ls)) = add64 (lsn ls) (length str) \<and>
            buf_free (snd (log_write_low_part str ls)) = add64 (buf_free ls) (length str)) \<and>
         lsn (log_write_low str ls) =
           add64 (lsn ls) (length str + blocks_completed ls (length str) * framing_size ls) \<and>
         buf_free (log_write_low str ls) =
           add64 (buf_free ls) (length str + blocks_completed ls (length str) * framing_size ls) \<and>
         LOG_BLOCK_HDR_SIZE \<le> block_offset (log_write_low str ls) \<and>
         block_offset (log_write_low str ls) < trailer_offset (log_write_low str ls) \<and>
         log_write_low str ls =
           (if fst (log_write_low_part str ls) = [] then snd (log_write_low_part str ls)
            else log_write_low (fst (log_write_low_part str ls)) (snd (log_write_low_part str ls))) \<and>
         (buf_free ls + length str + blocks_completed ls (length str) * framing_size ls < 2 ^ 64 \<longrightarrow>
            (\<forall>x. x < buf ls + buf_free ls \<and>
                 \<not> (current_block ls + LOG_BLOCK_HDR_DATA_LEN \<le> x \<and>
                    x < current_block ls + LOG_BLOCK_HDR_DATA_LEN + 2) \<and>
                 \<not> (current_block ls + LOG_BLOCK_CHECKPOINT_NO \<le> x \<and>
                    x < current_block ls + LOG_BLOCK_CHECKPOINT_NO + 4) \<longrightarrow>
                 buf_mem (log_write_low str ls) x = buf_mem ls x) \<and>
            (\<forall>i < length str. buf_mem (log_write_low str ls) (payload_address ls i) = str ! i) \<and>
            (\<forall>j < blocks_completed ls (length str).
                 log_block_get_data_len (buf_mem (log_write_low str ls))
                   (current_block ls + OS_FILE_LOG_BLOCK_SIZE * j) = OS_FILE_LOG_BLOCK_SIZE \<and>
                 log_block_get_checkpoint_no (buf_mem (log_write_low str ls))
                   (current_block ls + OS_FILE_LOG_BLOCK_SIZE * j) =
                   next_checkpoint_no ls mod 2 ^ 32) \<and>
            (\<forall>j. 1 \<le> j \<and> j \<le> blocks_completed ls (length str) \<longrightarrow>
                 mach_read_from
                   (mem_read (buf_mem (log_write_low str ls))
                      (current_block ls + OS_FILE_LOG_BLOCK_SIZE * j + LOG_BLOCK_HDR_NO) 4) =
                   log_block_convert_lsn_to_no
                     (add64 (lsn ls)
                        (LOG_BLOCK_HDR_SIZE + OS_FILE_LOG_BLOCK_SIZE * j - block_offset ls)) \<and>
                 log_block_get_first_rec_group (buf_mem (log_write_low str ls))
                   (current_block ls + OS_FILE_LOG_BLOCK_SIZE * j) = 0) \<and>
            current_block (log_write_low str ls) =
              current_block ls + OS_FILE_LOG_BLOCK_SIZE * blocks_completed ls (length str) \<and>
            log_block_get_data_len (buf_mem (log_write_low str ls))
              (current_block (log_write_low str ls)) = block_offset (log_write_low str ls) \<and>
            log_block_get_checkpoint_no (buf_mem (log_write_low str ls))
              (current_block (log_write_low str ls)) =
              log_block_get_checkpoint_no (buf_mem ls) (current_block (log_write_low str ls)))"
proof -
  have off: "block_offset ls < 512"
    using hi trailer_offset_bounds [of ls] by simp
  have hi': "block_offset ls \<le> trailer_offset ls"
    using hi by simp
  have over: "trailer_offset ls < block_offset ls + length str \<Longrightarrow> \<not> fits str ls"
    using fits_plain [OF off short] by simp
  note a = pass_over [OF aligned lo hi' over]
  note b = pass_exact [OF aligned lo]
  note c = pass_partial [OF aligned lo]
  note d = log_write_low_account [OF aligned lo hi short]
  have u: "log_write_low str ls =
           (if fst (log_write_low_part str ls) = [] then snd (log_write_low_part str ls)
            else log_write_low (fst (log_write_low_part str ls)) (snd (log_write_low_part str ls)))"
    by (subst log_write_low_unfold) simp
  have m: "(\<forall>x. x < buf ls + buf_free ls \<and>
                 \<not> (current_block ls + LOG_BLOCK_HDR_DATA_LEN \<le> x \<and>
                    x < current_block ls + LOG_BLOCK_HDR_DATA_LEN + 2) \<and>
                 \<not> (current_block ls + LOG_BLOCK_CHECKPOINT_NO \<le> x \<and>
                    x < current_block ls + LOG_BLOCK_CHECKPOINT_NO + 4) \<longrightarrow>
                 buf_mem (log_write_low str ls) x = buf_mem ls x) \<and>
            (\<forall>i < length str. buf_mem (log_write_low str ls) (payload_address ls i) = str ! i) \<and>
            (\<forall>j < blocks_completed ls (length str).
                 log_block_get_data_len (buf_mem (log_write_low str ls))
                   (current_block ls + OS_FILE_LOG_BLOCK_SIZE * j) = OS_FILE_LOG_BLOCK_SIZE \<and>
                 log_block_get_checkpoint_no (buf_mem (log_write_low str ls))
                   (current_block ls + OS_FILE_LOG_BLOCK_SIZE * j) =
                   next_checkpoint_no ls mod 2 ^ 32) \<and>
            (\<forall>j. 1 \<le> j \<and> j \<le> blocks_completed ls (length str) \<longrightarrow>
                 mach_read_from
                   (mem_read (buf_mem (log_write_low str ls))
                      (current_block ls + OS_FILE_LOG_BLOCK_SIZE * j + LOG_BLOCK_HDR_NO) 4) =
                   log_block_convert_lsn_to_no
                     (add64 (lsn ls)
                        (LOG_BLOCK_HDR_SIZE + OS_FILE_LOG_BLOCK_SIZE * j - block_offset ls)) \<and>
                 log_block_get_first_rec_group (buf_mem (log_write_low str ls))
                   (current_block ls + OS_FILE_LOG_BLOCK_SIZE * j) = 0) \<and>
            current_block (log_write_low str ls) =
              current_block ls + OS_FILE_LOG_BLOCK_SIZE * blocks_completed ls (length str) \<and>
            log_block_get_data_len (buf_mem (log_write_low str ls))
              (current_block (log_write_low str ls)) = block_offset (log_write_low str ls) \<and>
            log_block_get_checkpoint_no (buf_mem (log_write_low str ls))
              (current_block (log_write_low str ls)) =
              log_block_get_checkpoint_no (buf_mem ls) (current_block (log_write_low str ls))"
    if room: "buf_free ls + length str + blocks_completed ls (length str) * framing_size ls < 2 ^ 64"
  proof -
    note pre = aligned lo hi room
    have f: "buf_mem (log_write_low str ls) x = buf_mem ls x"
      if "x < buf ls + buf_free ls \<and>
          \<not> (current_block ls + LOG_BLOCK_HDR_DATA_LEN \<le> x \<and>
             x < current_block ls + LOG_BLOCK_HDR_DATA_LEN + 2) \<and>
          \<not> (current_block ls + LOG_BLOCK_CHECKPOINT_NO \<le> x \<and>
             x < current_block ls + LOG_BLOCK_CHECKPOINT_NO + 4)" for x
    proof (rule log_write_low_frame [OF pre])
      show "x < buf ls + buf_free ls"
        using that by simp
      show "\<not> (current_block ls + 4 \<le> x \<and> x < current_block ls + 6)"
        using that unfolding LOG_BLOCK_HDR_DATA_LEN_def by linarith
      show "\<not> (current_block ls + 8 \<le> x \<and> x < current_block ls + 12)"
        using that unfolding LOG_BLOCK_CHECKPOINT_NO_def by linarith
    qed
    note p = log_write_low_payload [OF pre]
    have k: "log_block_get_data_len (buf_mem (log_write_low str ls))
               (current_block ls + OS_FILE_LOG_BLOCK_SIZE * j) = OS_FILE_LOG_BLOCK_SIZE \<and>
             log_block_get_checkpoint_no (buf_mem (log_write_low str ls))
               (current_block ls + OS_FILE_LOG_BLOCK_SIZE * j) = next_checkpoint_no ls mod 2 ^ 32"
      if "j < blocks_completed ls (length str)" for j
      using log_write_low_completed [OF pre that] by (simp add: OS_FILE_LOG_BLOCK_SIZE_def)
    have h: "mach_read_from
               (mem_read (buf_mem (log_write_low str ls))
                  (current_block ls + OS_FILE_LOG_BLOCK_SIZE * j + LOG_BLOCK_HDR_NO) 4) =
               log_block_convert_lsn_to_no
                 (add64 (lsn ls)
                    (LOG_BLOCK_HDR_SIZE + OS_FILE_LOG_BLOCK_SIZE * j - block_offset ls)) \<and>
             log_block_get_first_rec_group (buf_mem (log_write_low str ls))
               (current_block ls + OS_FILE_LOG_BLOCK_SIZE * j) = 0"
      if "1 \<le> j \<and> j \<le> blocks_completed ls (length str)" for j
    proof -
      have "1 \<le> j" and "j \<le> blocks_completed ls (length str)"
        using that by simp_all
      from log_write_low_headers [OF pre this] show ?thesis
        by (simp add: OS_FILE_LOG_BLOCK_SIZE_def LOG_BLOCK_HDR_NO_def LOG_BLOCK_HDR_SIZE_def)
    qed
    note e = log_write_low_current [OF pre]
    have e1: "current_block (log_write_low str ls) =
              current_block ls + OS_FILE_LOG_BLOCK_SIZE * blocks_completed ls (length str)"
      using e by (simp add: OS_FILE_LOG_BLOCK_SIZE_def)
    show ?thesis
      using f p k h e1 e [THEN conjunct2] by blast
  qed
  show ?thesis
    using a(1,2,3) b(1,2,3) c(1-6) d u m by blast
qed

text \<open>
  Claim C5 at the server at rest, whose \<^verbatim>\<open>buf_free\<close> is 12 in a block with trailer offset
  508: 500 bytes cross into the next block, 496 bytes fill the block, 3 bytes leave it
  partly filled.
\<close>

theorem log_write_low_blocks_witness:
  "buf example_log_sys mod OS_FILE_LOG_BLOCK_SIZE = 0 \<and>
   LOG_BLOCK_HDR_SIZE \<le> block_offset example_log_sys \<and>
   block_offset example_log_sys < trailer_offset example_log_sys \<and>
   length (replicate 500 (0x41 :: byte)) < 2 ^ 63 \<and>
   trailer_offset example_log_sys <
     block_offset example_log_sys + length (replicate 500 (0x41 :: byte)) \<and>
   block_offset example_log_sys + length (replicate 496 (0x41 :: byte)) =
     trailer_offset example_log_sys \<and>
   block_offset example_log_sys + length (replicate 3 (0x41 :: byte)) <
     trailer_offset example_log_sys \<and>
   buf_free example_log_sys + length (replicate 500 (0x41 :: byte)) +
     blocks_completed example_log_sys (length (replicate 500 (0x41 :: byte))) *
     framing_size example_log_sys < 2 ^ 64 \<and>
   fst (log_write_low_part (replicate 500 0x41) example_log_sys) = replicate 4 0x41 \<and>
   mem_read (buf_mem (snd (log_write_low_part (replicate 500 0x41) example_log_sys))) 12 496 =
     replicate 496 0x41 \<and>
   completes_block example_log_sys 496
     (snd (log_write_low_part (replicate 500 0x41) example_log_sys)) \<and>
   lsn (log_write_low (replicate 500 0x41) example_log_sys) = 8720 \<and>
   buf_free (log_write_low (replicate 500 0x41) example_log_sys) = 528 \<and>
   buf_mem (log_write_low (replicate 500 0x41) example_log_sys) 0 = buf_mem example_log_sys 0 \<and>
   buf_mem (log_write_low (replicate 500 0x41) example_log_sys) 12 = 0x41 \<and>
   buf_mem (log_write_low (replicate 500 0x41) example_log_sys) 507 = 0x41 \<and>
   buf_mem (log_write_low (replicate 500 0x41) example_log_sys) 524 = 0x41 \<and>
   buf_mem (log_write_low (replicate 500 0x41) example_log_sys) 527 = 0x41 \<and>
   log_block_get_data_len (buf_mem (log_write_low (replicate 500 0x41) example_log_sys)) 0 = 512 \<and>
   log_block_get_checkpoint_no (buf_mem (log_write_low (replicate 500 0x41) example_log_sys)) 0 =
     0 \<and>
   mach_read_from (mem_read (buf_mem (log_write_low (replicate 500 0x41) example_log_sys)) 512 4) =
     18 \<and>
   log_block_get_first_rec_group (buf_mem (log_write_low (replicate 500 0x41) example_log_sys))
     512 = 0 \<and>
   current_block (log_write_low (replicate 500 0x41) example_log_sys) = 512 \<and>
   log_block_get_data_len (buf_mem (log_write_low (replicate 500 0x41) example_log_sys)) 512 =
     16 \<and>
   completes_block example_log_sys 496
     (snd (log_write_low_part (replicate 496 0x41) example_log_sys)) \<and>
   lsn (log_write_low (replicate 496 0x41) example_log_sys) = 8716 \<and>
   buf_free (log_write_low (replicate 496 0x41) example_log_sys) = 524 \<and>
   current_block (log_write_low (replicate 496 0x41) example_log_sys) = 512 \<and>
   log_block_get_data_len (buf_mem (log_write_low (replicate 496 0x41) example_log_sys)) 512 =
     12 \<and>
   log_block_get_data_len (buf_mem (snd (log_write_low_part (replicate 3 0x41) example_log_sys)))
     0 = 15 \<and>
   lsn (log_write_low (replicate 3 0x41) example_log_sys) = 8207 \<and>
   buf_free (log_write_low (replicate 3 0x41) example_log_sys) = 15 \<and>
   buf_mem (log_write_low (replicate 3 0x41) example_log_sys) 14 = 0x41 \<and>
   current_block (log_write_low (replicate 3 0x41) example_log_sys) = 0 \<and>
   log_block_get_data_len (buf_mem (log_write_low (replicate 3 0x41) example_log_sys)) 0 = 15"
proof -
  have h: "buf example_log_sys mod OS_FILE_LOG_BLOCK_SIZE = 0"
          "LOG_BLOCK_HDR_SIZE \<le> block_offset example_log_sys"
          "block_offset example_log_sys < trailer_offset example_log_sys"
    and v: "block_offset example_log_sys = 12" "trailer_offset example_log_sys = 508"
           "framing_size example_log_sys = 16" "current_block example_log_sys = 0"
           "lsn example_log_sys = 8204" "buf_free example_log_sys = 12" "buf example_log_sys = 0"
           "next_checkpoint_no example_log_sys = 0"
    by (simp_all add: example_log_sys_def example_log_file_def block_offset_def
                      trailer_offset_def framing_size_def current_block_def ut_2pow_round_def
                      OS_FILE_LOG_BLOCK_SIZE_def LOG_BLOCK_HDR_SIZE_def LOG_BLOCK_CHECKSUM_def
                      FORMAT_10_5_def FORMAT_ENC_10_4_def FORMAT_10_4_def FORMAT_ENCRYPTED_def)
  have s: "length (replicate 500 (0x41 :: byte)) < 2 ^ 63"
          "length (replicate 496 (0x41 :: byte)) < 2 ^ 63"
          "length (replicate 3 (0x41 :: byte)) < 2 ^ 63"
    by simp_all
  have k: "blocks_completed example_log_sys 500 = 1" "blocks_completed example_log_sys 496 = 1"
          "blocks_completed example_log_sys 3 = 0" "blocks_completed example_log_sys 0 = 0"
          "blocks_completed example_log_sys 495 = 0" "blocks_completed example_log_sys 499 = 1"
          "blocks_completed example_log_sys 2 = 0"
    by (simp_all add: blocks_completed_def v LOG_BLOCK_HDR_SIZE_def)
  have sums: "add64 8204 516 = 8720" "add64 12 516 = 528" "add64 8204 512 = 8716"
             "add64 12 512 = 524" "add64 8204 3 = 8207" "add64 12 3 = 15"
    by (simp_all add: add64_def)
  have no: "log_block_convert_lsn_to_no 8716 = 18"
    by (simp add: log_block_convert_lsn_to_no_def OS_FILE_LOG_BLOCK_SIZE_def)
  have room: "buf_free example_log_sys + length (replicate 500 (0x41 :: byte)) +
                blocks_completed example_log_sys (length (replicate 500 (0x41 :: byte))) *
                framing_size example_log_sys < 2 ^ 64"
             "buf_free example_log_sys + length (replicate 496 (0x41 :: byte)) +
                blocks_completed example_log_sys (length (replicate 496 (0x41 :: byte))) *
                framing_size example_log_sys < 2 ^ 64"
             "buf_free example_log_sys + length (replicate 3 (0x41 :: byte)) +
                blocks_completed example_log_sys (length (replicate 3 (0x41 :: byte))) *
                framing_size example_log_sys < 2 ^ 64"
    by (simp_all add: v k)
  note t500 = log_write_low_blocks [OF h s(1)]
  note t496 = log_write_low_blocks [OF h s(2)]
  note t3 = log_write_low_blocks [OF h s(3)]
  note m500 = t500 [THEN conjunct2, THEN conjunct2, THEN conjunct2, THEN conjunct2,
                    THEN conjunct2, THEN conjunct2, THEN conjunct2, THEN conjunct2,
                    THEN mp, OF room(1)]
  note m496 = t496 [THEN conjunct2, THEN conjunct2, THEN conjunct2, THEN conjunct2,
                    THEN conjunct2, THEN conjunct2, THEN conjunct2, THEN conjunct2,
                    THEN mp, OF room(2)]
  note m3 = t3 [THEN conjunct2, THEN conjunct2, THEN conjunct2, THEN conjunct2,
                THEN conjunct2, THEN conjunct2, THEN conjunct2, THEN conjunct2,
                THEN mp, OF room(3)]
  note f500 = m500 [THEN conjunct1, rule_format]
  note p500 = m500 [THEN conjunct2, THEN conjunct1, rule_format]
  note c500 = m500 [THEN conjunct2, THEN conjunct2, THEN conjunct1, rule_format]
  note h500 = m500 [THEN conjunct2, THEN conjunct2, THEN conjunct2, THEN conjunct1, rule_format]
  note e500 = m500 [THEN conjunct2, THEN conjunct2, THEN conjunct2, THEN conjunct2]
  note e496 = m496 [THEN conjunct2, THEN conjunct2, THEN conjunct2, THEN conjunct2]
  note p3 = m3 [THEN conjunct2, THEN conjunct1, rule_format]
  note e3 = m3 [THEN conjunct2, THEN conjunct2, THEN conjunct2, THEN conjunct2]
  have bf: "buf_free (log_write_low (replicate 500 0x41) example_log_sys) = 528"
           "buf_free (log_write_low (replicate 496 0x41) example_log_sys) = 524"
           "buf_free (log_write_low (replicate 3 0x41) example_log_sys) = 15"
    using t500 [THEN conjunct2, THEN conjunct2, THEN conjunct2, THEN conjunct2, THEN conjunct1]
          t496 [THEN conjunct2, THEN conjunct2, THEN conjunct2, THEN conjunct2, THEN conjunct1]
          t3 [THEN conjunct2, THEN conjunct2, THEN conjunct2, THEN conjunct2, THEN conjunct1]
    by (simp_all add: v k sums)
  have bo: "block_offset (log_write_low (replicate 500 0x41) example_log_sys) = 16"
           "block_offset (log_write_low (replicate 496 0x41) example_log_sys) = 12"
           "block_offset (log_write_low (replicate 3 0x41) example_log_sys) = 15"
    by (simp_all add: block_offset_def bf OS_FILE_LOG_BLOCK_SIZE_def)
  have a0: "buf_mem (log_write_low (replicate 500 0x41) example_log_sys) 0 =
            buf_mem example_log_sys 0"
    by (rule f500) (simp add: v LOG_BLOCK_HDR_DATA_LEN_def LOG_BLOCK_CHECKPOINT_NO_def)
  have a1: "buf_mem (log_write_low (replicate 500 0x41) example_log_sys) 12 = 0x41"
    using p500 [of 0] by (simp add: payload_address_def v k)
  have a2: "buf_mem (log_write_low (replicate 500 0x41) example_log_sys) 507 = 0x41"
    using p500 [of 495] by (simp add: payload_address_def v k)
  have a3: "buf_mem (log_write_low (replicate 500 0x41) example_log_sys) 524 = 0x41"
    using p500 [of 496] by (simp add: payload_address_def v k)
  have a4: "buf_mem (log_write_low (replicate 500 0x41) example_log_sys) 527 = 0x41"
    using p500 [of 499] by (simp add: payload_address_def v k)
  have a5: "log_block_get_data_len (buf_mem (log_write_low (replicate 500 0x41) example_log_sys))
              0 = 512"
           "log_block_get_checkpoint_no
              (buf_mem (log_write_low (replicate 500 0x41) example_log_sys)) 0 = 0"
    using c500 [of 0] by (simp_all add: v k OS_FILE_LOG_BLOCK_SIZE_def)
  have a6: "mach_read_from
              (mem_read (buf_mem (log_write_low (replicate 500 0x41) example_log_sys)) 512 4) = 18"
           "log_block_get_first_rec_group
              (buf_mem (log_write_low (replicate 500 0x41) example_log_sys)) 512 = 0"
    using h500 [of 1]
    by (simp_all add: v k OS_FILE_LOG_BLOCK_SIZE_def LOG_BLOCK_HDR_NO_def LOG_BLOCK_HDR_SIZE_def
                      sums no)
  have a7: "current_block (log_write_low (replicate 500 0x41) example_log_sys) = 512"
    using e500 [THEN conjunct1] by (simp add: v k OS_FILE_LOG_BLOCK_SIZE_def)
  have a8: "log_block_get_data_len (buf_mem (log_write_low (replicate 500 0x41) example_log_sys))
              512 = 16"
    using e500 [THEN conjunct2, THEN conjunct1] unfolding a7 bo .
  have b1: "current_block (log_write_low (replicate 496 0x41) example_log_sys) = 512"
    using e496 [THEN conjunct1] by (simp add: v k OS_FILE_LOG_BLOCK_SIZE_def)
  have b2: "log_block_get_data_len (buf_mem (log_write_low (replicate 496 0x41) example_log_sys))
              512 = 12"
    using e496 [THEN conjunct2, THEN conjunct1] unfolding b1 bo .
  have c1: "buf_mem (log_write_low (replicate 3 0x41) example_log_sys) 14 = 0x41"
    using p3 [of 2] by (simp add: payload_address_def v k)
  have c2: "current_block (log_write_low (replicate 3 0x41) example_log_sys) = 0"
    using e3 [THEN conjunct1] by (simp add: v k OS_FILE_LOG_BLOCK_SIZE_def)
  have c3: "log_block_get_data_len (buf_mem (log_write_low (replicate 3 0x41) example_log_sys))
              0 = 15"
    using e3 [THEN conjunct2, THEN conjunct1] unfolding c2 bo .
  have old: "fst (log_write_low_part (replicate 500 0x41) example_log_sys) = replicate 4 0x41 \<and>
     mem_read (buf_mem (snd (log_write_low_part (replicate 500 0x41) example_log_sys))) 12 496 =
       replicate 496 0x41 \<and>
     completes_block example_log_sys 496
       (snd (log_write_low_part (replicate 500 0x41) example_log_sys)) \<and>
     lsn (log_write_low (replicate 500 0x41) example_log_sys) = 8720 \<and>
     completes_block example_log_sys 496
       (snd (log_write_low_part (replicate 496 0x41) example_log_sys)) \<and>
     lsn (log_write_low (replicate 496 0x41) example_log_sys) = 8716 \<and>
     log_block_get_data_len (buf_mem (snd (log_write_low_part (replicate 3 0x41) example_log_sys)))
       0 = 15 \<and>
     lsn (log_write_low (replicate 3 0x41) example_log_sys) = 8207"
    using t500 [THEN conjunct1] t500 [THEN conjunct2, THEN conjunct2, THEN conjunct2, THEN conjunct1]
          t496 [THEN conjunct2, THEN conjunct1]
          t496 [THEN conjunct2, THEN conjunct2, THEN conjunct2, THEN conjunct1]
          t3 [THEN conjunct2, THEN conjunct2, THEN conjunct1]
          t3 [THEN conjunct2, THEN conjunct2, THEN conjunct2, THEN conjunct1]
    by (simp add: v k sums)
  show ?thesis
    using h room(1) old bf a0 a1 a2 a3 a4 a5 a6 a7 a8 b1 b2 c1 c2 c3
    by (simp add: v)
qed

end
